theory Spec2Isabelle
  imports Main "HOL-Library.Sublist"
begin

section \<open>Go values used by the package\<close>

text \<open>
  A Go \<^verbatim>\<open>error\<close> is an interface value that may be \<^verbatim>\<open>nil\<close>. The package only
  compares errors with \<^verbatim>\<open>nil\<close> and passes them on, so an error is \<open>nil\<close> or a message.
\<close>

datatype error = nil | Err string

definition errors_New :: "string \<Rightarrow> error" where
  "errors_New msg = Err msg"

text \<open>
  What one call of a \<^verbatim>\<open>ServeHTTP\<close> method does with the exchange. Handlers are opaque
  (\<^verbatim>\<open>http.Handler\<close> values, type \<open>'h\<close>); the model records which one is called and
  on which path of the code:
  \<^item> \<open>Handled h\<close>: \<^verbatim>\<open>handler.ServeHTTP(w, r)\<close> for a matcher entry or a registered domain;
  \<^item> \<open>Fallback h\<close>: the not-found handler is called;
  \<^item> \<open>NoResponse\<close>: the method returns without calling any handler;
  \<^item> \<open>NilFuncCall\<close>: a \<^verbatim>\<open>nil\<close> function value is called, which is a run-time panic.
\<close>

datatype 'h response = Handled 'h | Fallback 'h | NoResponse | NilFuncCall

text \<open>The two fields of \<^verbatim>\<open>*http.Request\<close> that the package reads: \<^verbatim>\<open>r.Host\<close> and \<^verbatim>\<open>r.URL.Path\<close>.\<close>

record Request =
  Host :: string
  Path :: string

subsection \<open>Functions of package \<^verbatim>\<open>strings\<close>\<close>

text \<open>
  \<^verbatim>\<open>strings.HasPrefix(s, prefix)\<close>, \<^verbatim>\<open>strings.HasSuffix(s, suffix)\<close>,
  \<^verbatim>\<open>strings.Contains(s, substr)\<close> and \<^verbatim>\<open>strings.Index(s, substr)\<close>: the string that is
  searched comes first, the piece looked for second.
\<close>

definition strings_HasPrefix :: "string \<Rightarrow> string \<Rightarrow> bool" where
  "strings_HasPrefix s pre = prefix pre s"

definition strings_HasSuffix :: "string \<Rightarrow> string \<Rightarrow> bool" where
  "strings_HasSuffix s suf = suffix suf s"

definition strings_Contains :: "string \<Rightarrow> string \<Rightarrow> bool" where
  "strings_Contains s substr = sublist substr s"

fun strings_Index :: "string \<Rightarrow> string \<Rightarrow> int" where
  "strings_Index [] substr = (if substr = [] then 0 else - 1)"
| "strings_Index (c # rest) substr =
     (if prefix substr (c # rest) then 0
      else (let i = strings_Index rest substr in if i < 0 then - 1 else i + 1))"

section \<open>site.go: Site and its matcher chain\<close>

type_synonym MatchFunc = "string \<Rightarrow> bool"

record 'h Matcher =
  Match :: MatchFunc
  Handler :: 'h

text \<open>
  \<^verbatim>\<open>auth\<close> is \<^verbatim>\<open>nil\<close> (\<open>None\<close>) or the two-element slice \<^verbatim>\<open>{certFile, keyFile}\<close>
  that \<^verbatim>\<open>NewSecureSite\<close> stores; nothing else writes the field. \<^verbatim>\<open>notFound\<close> is a
  function value and may be \<^verbatim>\<open>nil\<close> (\<open>None\<close>). \<^verbatim>\<open>SPDY\<close> is the field that
  \<^verbatim>\<open>Server.Serve\<close> reads as \<^verbatim>\<open>site.SPDY\<close>; the constructors leave it at its zero value.
\<close>

record 'h Site =
  Name :: string
  Port :: int
  auth :: "(string \<times> string) option"
  SPDY :: bool
  handlers :: "'h Matcher list"
  notFound :: "'h option"

definition NewSite :: "string \<Rightarrow> int \<Rightarrow> 'h option \<Rightarrow> 'h Site" where
  "NewSite name port nf =
     \<lparr>Name = name, Port = port, auth = None, SPDY = False, handlers = [], notFound = nf\<rparr>"

definition NewSecureSite :: "string \<Rightarrow> int \<Rightarrow> string \<Rightarrow> string \<Rightarrow> 'h option \<Rightarrow> 'h Site" where
  "NewSecureSite name port certFile keyFile nf =
     \<lparr>Name = name, Port = port, auth = Some (certFile, keyFile), SPDY = False,
      handlers = [], notFound = nf\<rparr>"

text \<open>\<^verbatim>\<open>makeMatchFunc(s1, m)\<close> returns \<^verbatim>\<open>func(s2) { return m(s1, s2) }\<close>.\<close>

definition makeMatchFunc :: "string \<Rightarrow> (string \<Rightarrow> string \<Rightarrow> bool) \<Rightarrow> MatchFunc" where
  "makeMatchFunc s1 m = (\<lambda>s2. m s1 s2)"

definition stringEquals :: "string \<Rightarrow> string \<Rightarrow> bool" where
  "stringEquals s1 s2 = (s1 = s2)"

text \<open>
  The registration methods. Each one appends to \<^verbatim>\<open>s.handlers\<close>; the variadic ones run
  \<^verbatim>\<open>for _, pattern := range patterns\<close> and append one entry per pattern.
\<close>

definition append_handler :: "'h Site \<Rightarrow> 'h Matcher \<Rightarrow> 'h Site" where
  "append_handler s entry = s\<lparr>handlers := handlers s @ [entry]\<rparr>"

fun range_patterns ::
  "(string \<Rightarrow> string \<Rightarrow> bool) \<Rightarrow> 'h Site \<Rightarrow> 'h \<Rightarrow> string list \<Rightarrow> 'h Site" where
  "range_patterns m s handler [] = s"
| "range_patterns m s handler (pattern # rest) =
     range_patterns m
       (append_handler s \<lparr>Match = makeMatchFunc pattern m, Handler = handler\<rparr>) handler rest"

definition Site_Always :: "'h Site \<Rightarrow> 'h \<Rightarrow> 'h Site" where
  "Site_Always s handler = append_handler s \<lparr>Match = (\<lambda>_. True), Handler = handler\<rparr>"

definition Site_Contains :: "'h Site \<Rightarrow> 'h \<Rightarrow> string list \<Rightarrow> 'h Site" where
  "Site_Contains s handler patterns = range_patterns strings_Contains s handler patterns"

definition Site_Equals :: "'h Site \<Rightarrow> 'h \<Rightarrow> string list \<Rightarrow> 'h Site" where
  "Site_Equals s handler patterns = range_patterns stringEquals s handler patterns"

text \<open>\<^verbatim>\<open>strings.EqualFold\<close> (Unicode case folding) is a parameter of the model.\<close>

definition Site_EqualFold ::
  "(string \<Rightarrow> string \<Rightarrow> bool) \<Rightarrow> 'h Site \<Rightarrow> 'h \<Rightarrow> string list \<Rightarrow> 'h Site" where
  "Site_EqualFold strings_EqualFold s handler patterns =
     range_patterns strings_EqualFold s handler patterns"

definition Site_HasPrefix :: "'h Site \<Rightarrow> 'h \<Rightarrow> string list \<Rightarrow> 'h Site" where
  "Site_HasPrefix s handler patterns = range_patterns strings_HasPrefix s handler patterns"

definition Site_HasSuffix :: "'h Site \<Rightarrow> 'h \<Rightarrow> string list \<Rightarrow> 'h Site" where
  "Site_HasSuffix s handler patterns = range_patterns strings_HasSuffix s handler patterns"

definition Site_Match :: "'h Site \<Rightarrow> 'h \<Rightarrow> MatchFunc \<Rightarrow> 'h Site" where
  "Site_Match s handler matchFunc = append_handler s \<lparr>Match = matchFunc, Handler = handler\<rparr>"

text \<open>
  \<^verbatim>\<open>Site.ServeHTTP\<close>: the loop over \<^verbatim>\<open>s.handlers\<close> returns at the first entry whose
  \<^verbatim>\<open>Match\<close> accepts the path; after the loop \<^verbatim>\<open>s.notFound(w, r)\<close> is called, whatever
  the field holds.
\<close>

fun range_handlers :: "'h Matcher list \<Rightarrow> string \<Rightarrow> 'h option" where
  "range_handlers [] path = None"
| "range_handlers (handler # rest) path =
     (if Match handler path then Some (Handler handler) else range_handlers rest path)"

definition Site_ServeHTTP :: "'h Site \<Rightarrow> Request \<Rightarrow> 'h response" where
  "Site_ServeHTTP s r =
     (case range_handlers (handlers s) (Path r) of
        Some h \<Rightarrow> Handled h
      | None \<Rightarrow> (case notFound s of None \<Rightarrow> NilFuncCall | Some f \<Rightarrow> Fallback f))"

section \<open>site.go: ReverseProxy\<close>

text \<open>
  \<^verbatim>\<open>proxy\<close> is the Go map from domain to handler that \<^verbatim>\<open>NewProxy\<close> allocates;
  \<^verbatim>\<open>NotFound\<close> is an interface value and may be \<^verbatim>\<open>nil\<close> (\<open>None\<close>).
\<close>

record 'h ReverseProxy =
  proxy :: "string \<rightharpoonup> 'h"
  NotFound :: "'h option"

definition NewProxy :: "'h ReverseProxy" where
  "NewProxy = \<lparr>proxy = Map.empty, NotFound = None\<rparr>"

text \<open>
  \<^verbatim>\<open>Register\<close> and \<^verbatim>\<open>RegisterSite\<close> have no result value: they finish (\<open>Done\<close>) or
  \<^verbatim>\<open>panic\<close>. The model returns that status together with the proxy as it is afterwards.
\<close>

datatype status = Done | Panic string

definition ReverseProxy_Register ::
  "'h ReverseProxy \<Rightarrow> string \<Rightarrow> 'h \<Rightarrow> status \<times> 'h ReverseProxy" where
  "ReverseProxy_Register p domain h =
     (if proxy p domain \<noteq> None then (Panic ''Domain already registered.'', p)
      else (Done, p\<lparr>proxy := (proxy p)(domain \<mapsto> h)\<rparr>))"

text \<open>\<^verbatim>\<open>RegisterSite\<close> stores the Site itself as the handler of its \<^verbatim>\<open>Name\<close>.\<close>

definition ReverseProxy_RegisterSite ::
  "'h Site ReverseProxy \<Rightarrow> 'h Site \<Rightarrow> status \<times> 'h Site ReverseProxy" where
  "ReverseProxy_RegisterSite p site =
     (if proxy p (Name site) \<noteq> None then (Panic ''Domain already registered.'', p)
      else (Done, p\<lparr>proxy := (proxy p)(Name site \<mapsto> site)\<rparr>))"

text \<open>
  \<^verbatim>\<open>for k, v := range m\<close> visits every key of a Go map once, in an order the language
  leaves unspecified. The order of one execution is a parameter of the model: a list
  \<open>order\<close> with \<open>map_order m order\<close>. The loops below walk that list and look each key up.
\<close>

definition map_order :: "('k \<rightharpoonup> 'v) \<Rightarrow> 'k list \<Rightarrow> bool" where
  "map_order m order = (distinct order \<and> set order = dom m)"

fun range_proxy :: "(string \<rightharpoonup> 'h) \<Rightarrow> string list \<Rightarrow> string \<Rightarrow> 'h option" where
  "range_proxy m [] host = None"
| "range_proxy m (domain # rest) host =
     (case m domain of
        None \<Rightarrow> range_proxy m rest host
      | Some handler \<Rightarrow>
          if strings_HasSuffix host domain then Some handler else range_proxy m rest host)"

definition call_NotFound :: "'h ReverseProxy \<Rightarrow> 'h response" where
  "call_NotFound p = (case NotFound p of Some nf \<Rightarrow> Fallback nf | None \<Rightarrow> NoResponse)"

text \<open>
  \<^verbatim>\<open>ReverseProxy.ServeHTTP\<close>. \<^verbatim>\<open>net.SplitHostPort\<close> belongs to the Go standard library
  and is a parameter: a function from the host string to \<^verbatim>\<open>(host, port, err)\<close>.
\<close>

definition ReverseProxy_ServeHTTP ::
  "(string \<Rightarrow> string \<times> string \<times> error) \<Rightarrow> string list \<Rightarrow> 'h ReverseProxy \<Rightarrow> Request
     \<Rightarrow> 'h response" where
  "ReverseProxy_ServeHTTP SplitHostPort order p r =
     (let scan = (\<lambda>host. case range_proxy (proxy p) order host of
                            Some handler \<Rightarrow> Handled handler
                          | None \<Rightarrow> call_NotFound p)
      in if strings_Index (Host r) '':'' \<ge> 0 then
           (case SplitHostPort (Host r) of
              (host, _, err) \<Rightarrow> if err \<noteq> nil then call_NotFound p else scan host)
         else scan (Host r))"

subsection \<open>A host/port splitter to run the proxy on\<close>

text \<open>
  The algorithm of \<^verbatim>\<open>net.SplitHostPort\<close> as the Go standard library documents it: the
  port starts after the last colon; a host that itself has a colon must be in square
  brackets. It is not part of the package; the theorems about the proxy hold for every
  splitter, and this one instantiates them.
\<close>

definition LastIndexByte :: "string \<Rightarrow> char \<Rightarrow> int" where
  "LastIndexByte s c =
     (let i = strings_Index (rev s) [c] in if i < 0 then - 1 else int (length s) - 1 - i)"

definition addrErr :: "string \<Rightarrow> string \<times> string \<times> error" where
  "addrErr why = ([], [], Err why)"

definition net_SplitHostPort :: "string \<Rightarrow> string \<times> string \<times> error" where
  "net_SplitHostPort hostport =
     (let i = LastIndexByte hostport CHR '':'';
          finish = (\<lambda>host j k.
            if strings_Index (drop j hostport) ''['' \<ge> 0 then addrErr ''unexpected [ in address''
            else if strings_Index (drop k hostport) '']'' \<ge> 0 then addrErr ''unexpected ] in address''
            else (host, drop (nat (i + 1)) hostport, nil))
      in if i < 0 then addrErr ''missing port in address''
         else if take 1 hostport = ''['' then
           (let e = strings_Index hostport '']'' in
            if e < 0 then addrErr ''missing ] in address''
            else if e + 1 = int (length hostport) then addrErr ''missing port in address''
            else if e + 1 = i then finish (take (nat e - 1) (drop 1 hostport)) 1 (nat e + 1)
            else if take 1 (drop (nat e + 1) hostport) = '':''
              then addrErr ''too many colons in address''
            else addrErr ''missing port in address'')
         else (let host = take (nat i) hostport in
               if strings_Index host '':'' \<ge> 0 then addrErr ''too many colons in address''
               else finish host 0 0))"

section \<open>server.go: Server\<close>

record 'h Server =
  sites :: "'h Site list"

definition NewServer :: "'h Server" where
  "NewServer = \<lparr>sites = []\<rparr>"

definition NewServerFromSites :: "'h Site list \<Rightarrow> 'h Server" where
  "NewServerFromSites ss = \<lparr>sites = ss\<rparr>"

definition Server_Add :: "'h Server \<Rightarrow> 'h Site \<Rightarrow> 'h Server" where
  "Server_Add s site = s\<lparr>sites := sites s @ [site]\<rparr>"

text \<open>The first loop of \<^verbatim>\<open>Serve\<close>: collect sites by port.\<close>

fun collect_sites :: "'h Site list \<Rightarrow> (int \<rightharpoonup> 'h Site list) \<Rightarrow> (int \<rightharpoonup> 'h Site list)" where
  "collect_sites [] portMap = portMap"
| "collect_sites (site # rest) portMap =
     collect_sites rest
       (case portMap (Port site) of
          Some ss \<Rightarrow> portMap(Port site \<mapsto> ss @ [site])
        | None \<Rightarrow> portMap(Port site \<mapsto> [site]))"

text \<open>
  The world \<^verbatim>\<open>Serve\<close> runs in. Loading a key pair and binding a socket give an error
  that is \<open>nil\<close> on success. A serve loop (\<^verbatim>\<open>ListenAndServe\<close> and the like, started in a
  goroutine) never returns (\<open>None\<close>) or returns an error value (\<open>Some err\<close>). An address
  \<^verbatim>\<open>fmt.Sprintf(":%d", port)\<close> is determined by its port and is kept as the port.
  \<open>first_ready\<close> is the scheduler's choice among the goroutines that send on the error
  channel.
\<close>

record env =
  tls_LoadX509KeyPair :: "string \<Rightarrow> string \<Rightarrow> error"
  net_Listen :: "int \<Rightarrow> error"
  http_ListenAndServe :: "int \<Rightarrow> error option"
  http_ListenAndServeTLS :: "int \<Rightarrow> string \<Rightarrow> string \<Rightarrow> error option"
  spdy_ListenAndServeTLS :: "int \<Rightarrow> string \<Rightarrow> string \<Rightarrow> error option"
  http_Server_Serve :: "int \<Rightarrow> error option"
  first_ready :: nat

text \<open>
  A \<^verbatim>\<open>tls.Certificate\<close>: the zero value (\<open>None\<close>, its chain \<^verbatim>\<open>Certificate\<close> is empty) or
  the pair that \<^verbatim>\<open>tls.LoadX509KeyPair\<close> has loaded from the two files (its chain holds
  at least the leaf). \<^verbatim>\<open>make([]tls.Certificate, n)\<close> gives \<open>n\<close> zero values.
\<close>

type_synonym tls_Certificate = "(string \<times> string) option"

definition make_Certificates :: "nat \<Rightarrow> tls_Certificate list" where
  "make_Certificates n = replicate n None"

text \<open>
  \<^verbatim>\<open>tlsConf.BuildNameToCertificate()\<close> belongs to the Go standard library. For every
  entry of \<^verbatim>\<open>Certificates\<close> it parses \<^verbatim>\<open>cert.Certificate[0]\<close>; on a zero-valued entry
  that read is out of range and the call panics. (What it builds is not used by the
  model.)
\<close>

definition BuildNameToCertificate :: "tls_Certificate list \<Rightarrow> status" where
  "BuildNameToCertificate certs =
     (if None \<in> set certs then Panic ''index out of range'' else Done)"

text \<open>
  The goroutines \<^verbatim>\<open>Serve\<close> starts, with their arguments (\<^verbatim>\<open>serveMany\<close>: the port of the
  listener, the proxy that handles it, and the certificates of the TLS configuration
  when the listener is wrapped in TLS).
\<close>

datatype 'h goroutine =
    Go_serveSPDY int "'h Site" string string
  | Go_serveHTTPS int "'h Site" string string
  | Go_serveHTTP int "'h Site"
  | Go_serveMany int "'h Site ReverseProxy" "tls_Certificate list option"

text \<open>The steps of \<^verbatim>\<open>Serve\<close> that touch the world, each with the port group it is for
  and its result.\<close>

datatype 'h event =
    EvRegisterSite int string status
  | EvLoadX509KeyPair int string string error
  | EvListen int error
  | EvGo "'h goroutine"

fun goroutine_port :: "'h goroutine \<Rightarrow> int" where
  "goroutine_port (Go_serveSPDY port _ _ _) = port"
| "goroutine_port (Go_serveHTTPS port _ _ _) = port"
| "goroutine_port (Go_serveHTTP port _) = port"
| "goroutine_port (Go_serveMany port _ _) = port"

fun event_port :: "'h event \<Rightarrow> int" where
  "event_port (EvRegisterSite port _ _) = port"
| "event_port (EvLoadX509KeyPair port _ _ _) = port"
| "event_port (EvListen port _) = port"
| "event_port (EvGo g) = goroutine_port g"

text \<open>How a call of \<^verbatim>\<open>Serve\<close> ends: it returns an error value, it panics, or it waits on
  the error channel for ever.\<close>

datatype outcome = Returned error | Panicked string | Blocked

text \<open>Run a step that yields events and a result after the events \<open>evs\<close>.\<close>

fun after :: "'e list \<Rightarrow> 'e list \<times> 'a \<Rightarrow> 'e list \<times> 'a" where
  "after evs (evs', res) = (evs @ evs', res)"

text \<open>
  The loop \<^verbatim>\<open>for i, site := range sites\<close> of a shared port: register the site, then, if
  the group uses TLS, load its key pair into \<^verbatim>\<open>tlsConf.Certificates[i]\<close>. \<open>a\<close> is the
  variable \<^verbatim>\<open>auth\<close> of \<^verbatim>\<open>Serve\<close>, \<open>i\<close> the index, \<open>p\<close> the proxy, \<open>certs\<close> the slice
  \<^verbatim>\<open>tlsConf.Certificates\<close> (as long as \<^verbatim>\<open>sites\<close>, so \<open>i\<close> is in range).
  Reading \<^verbatim>\<open>site.auth[0]\<close> of a \<^verbatim>\<open>nil\<close> slice is an index panic.
\<close>

fun range_sites ::
  "env \<Rightarrow> int \<Rightarrow> bool \<Rightarrow> nat \<Rightarrow> 'h Site list \<Rightarrow> 'h Site ReverseProxy \<Rightarrow> tls_Certificate list
     \<Rightarrow> 'h event list \<times> (outcome + 'h Site ReverseProxy \<times> tls_Certificate list)" where
  "range_sites env port a i [] p certs = ([], Inr (p, certs))"
| "range_sites env port a i (site # rest) p certs =
     (case ReverseProxy_RegisterSite p site of
        (Panic msg, _) \<Rightarrow> ([EvRegisterSite port (Name site) (Panic msg)], Inl (Panicked msg))
      | (Done, p') \<Rightarrow>
          if a then
            (case auth site of
               None \<Rightarrow> ([EvRegisterSite port (Name site) Done],
                         Inl (Panicked ''index out of range''))
             | Some (certFile, keyFile) \<Rightarrow>
                 (let err = tls_LoadX509KeyPair env certFile keyFile in
                  if err \<noteq> nil then
                    ([EvRegisterSite port (Name site) Done,
                      EvLoadX509KeyPair port certFile keyFile err], Inl (Returned err))
                  else
                    after [EvRegisterSite port (Name site) Done,
                           EvLoadX509KeyPair port certFile keyFile err]
                      (range_sites env port a (Suc i) rest p'
                         (certs[i := Some (certFile, keyFile)]))))
          else after [EvRegisterSite port (Name site) Done]
                 (range_sites env port a (Suc i) rest p' certs))"

text \<open>The check \<^verbatim>\<open>for i := 1; i < len(sites); i++\<close>: is there a site whose TLS usage
  differs from that of \<^verbatim>\<open>sites[0]\<close>?\<close>

fun mixed_auth :: "bool \<Rightarrow> 'h Site list \<Rightarrow> bool" where
  "mixed_auth a [] = False"
| "mixed_auth a (site # rest) = (if a \<noteq> (auth site \<noteq> None) then True else mixed_auth a rest)"

text \<open>
  The body of \<^verbatim>\<open>for port, sites := range portMap\<close>. The result is \<open>None\<close> when the loop
  goes on to the next group and \<open>Some\<close> when \<^verbatim>\<open>Serve\<close> ends here. On a shared port the
  certificates are allocated, the loop over the sites runs, and then
  \<^verbatim>\<open>BuildNameToCertificate\<close> is called whether the group uses TLS or not, before the bind. A group is never empty
  (the first loop only stores non-empty slices); \<^verbatim>\<open>sites[0]\<close> of an empty one would be
  an index panic.
\<close>

fun serve_group :: "env \<Rightarrow> int \<Rightarrow> 'h Site list \<Rightarrow> 'h event list \<times> outcome option" where
  "serve_group env port [] = ([], Some (Panicked ''index out of range''))"
| "serve_group env port [site] =
     (case auth site of
        Some (certFile, keyFile) \<Rightarrow>
          if SPDY site then ([EvGo (Go_serveSPDY (Port site) site certFile keyFile)], None)
          else ([EvGo (Go_serveHTTPS (Port site) site certFile keyFile)], None)
      | None \<Rightarrow> ([EvGo (Go_serveHTTP (Port site) site)], None))"
| "serve_group env port (site0 # rest) =
     (let a = (auth site0 \<noteq> None) in
      if mixed_auth a rest then
        ([], Some (Returned (errors_New
                     ''Multiple sites on the same port with mixed HTTPS usage.'')))
      else
        (case range_sites env port a 0 (site0 # rest) NewProxy
                (make_Certificates (length (site0 # rest))) of
           (evs, Inl out) \<Rightarrow> (evs, Some out)
         | (evs, Inr (p, certs)) \<Rightarrow>
             (case BuildNameToCertificate certs of
                Panic msg \<Rightarrow> (evs, Some (Panicked msg))
              | Done \<Rightarrow>
                  (let err = net_Listen env port in
                   if err \<noteq> nil then (evs @ [EvListen port err], Some (Returned err))
                   else (evs @ [EvListen port err,
                                EvGo (Go_serveMany port p (if a then Some certs else None))],
                         None)))))"

text \<open>The loop over the port groups, in the order \<open>order\<close> of this execution.\<close>

fun range_portMap ::
  "env \<Rightarrow> (int \<rightharpoonup> 'h Site list) \<Rightarrow> int list \<Rightarrow> 'h event list \<times> outcome option" where
  "range_portMap env portMap [] = ([], None)"
| "range_portMap env portMap (port # rest) =
     (case portMap port of
        None \<Rightarrow> range_portMap env portMap rest
      | Some ss \<Rightarrow>
          (case serve_group env port ss of
             (evs, Some out) \<Rightarrow> (evs, Some out)
           | (evs, None) \<Rightarrow> after evs (range_portMap env portMap rest)))"

text \<open>
  The four goroutine bodies: each runs its serve loop and sends on \<^verbatim>\<open>errChan\<close> only
  \<^verbatim>\<open>if err != nil\<close>. The result is the list of values the goroutine sends (none or one).
\<close>

definition send_if_error :: "error option \<Rightarrow> error list" where
  "send_if_error res = (case res of None \<Rightarrow> [] | Some err \<Rightarrow> if err \<noteq> nil then [err] else [])"

definition serveSPDY :: "env \<Rightarrow> int \<Rightarrow> string \<Rightarrow> string \<Rightarrow> error list" where
  "serveSPDY env port certFile keyFile = send_if_error (spdy_ListenAndServeTLS env port certFile keyFile)"

definition serveHTTPS :: "env \<Rightarrow> int \<Rightarrow> string \<Rightarrow> string \<Rightarrow> error list" where
  "serveHTTPS env port certFile keyFile = send_if_error (http_ListenAndServeTLS env port certFile keyFile)"

definition serveHTTP :: "env \<Rightarrow> int \<Rightarrow> error list" where
  "serveHTTP env port = send_if_error (http_ListenAndServe env port)"

definition serveMany :: "env \<Rightarrow> int \<Rightarrow> error list" where
  "serveMany env port = send_if_error (http_Server_Serve env port)"

fun run_goroutine :: "env \<Rightarrow> 'h goroutine \<Rightarrow> error list" where
  "run_goroutine env (Go_serveSPDY port _ certFile keyFile) = serveSPDY env port certFile keyFile"
| "run_goroutine env (Go_serveHTTPS port _ certFile keyFile) = serveHTTPS env port certFile keyFile"
| "run_goroutine env (Go_serveHTTP port _) = serveHTTP env port"
| "run_goroutine env (Go_serveMany port _ _) = serveMany env port"

fun started :: "'h event list \<Rightarrow> 'h goroutine list" where
  "started [] = []"
| "started (EvGo g # evs) = g # started evs"
| "started (_ # evs) = started evs"

text \<open>
  \<^verbatim>\<open>return <-errChan\<close>: the channel is unbuffered and read once, so the value received is
  one of the values the started goroutines send, whichever is ready first; with no sender
  the receive never completes.
\<close>

definition receive_errChan :: "env \<Rightarrow> 'h goroutine list \<Rightarrow> outcome" where
  "receive_errChan env gs =
     (let sent = concat (map (run_goroutine env) gs) in
      if sent = [] then Blocked else Returned (sent ! (first_ready env mod length sent)))"

text \<open>\<^verbatim>\<open>Server.Serve\<close>: the events of the call, in order, and how it ends.\<close>

definition Server_Serve :: "env \<Rightarrow> int list \<Rightarrow> 'h Server \<Rightarrow> 'h event list \<times> outcome" where
  "Server_Serve env order s =
     (case range_portMap env (collect_sites (sites s) Map.empty) order of
        (evs, Some out) \<Rightarrow> (evs, out)
      | (evs, None) \<Rightarrow> (evs, receive_errChan env (started evs)))"

section \<open>Specification vocabulary and sample worlds\<close>

text \<open>The port group of \<open>port\<close>: the Sites of the Server with that port, in the order
  they were added. (It is the slice that the first loop of \<^verbatim>\<open>Serve\<close> stores under the
  port, see \<open>collect_sites_lookup\<close>.)\<close>

definition has_port :: "int \<Rightarrow> 'h Site \<Rightarrow> bool" where
  "has_port port site = (Port site = port)"

definition port_group :: "'h Server \<Rightarrow> int \<Rightarrow> 'h Site list" where
  "port_group s port = filter (has_port port) (sites s)"

text \<open>A Site has TLS credentials when its \<^verbatim>\<open>auth\<close> is not \<^verbatim>\<open>nil\<close>; a group is mixed
  when some member has them and some member has not.\<close>

definition has_credentials :: "'h Site \<Rightarrow> bool" where
  "has_credentials site = (auth site \<noteq> None)"



text \<open>An event of the preparation of a shared port: a registration that finished or a
  key pair that loaded.\<close>

fun prepares :: "'h event \<Rightarrow> bool" where
  "prepares (EvRegisterSite _ _ st) = (st = Done)"
| "prepares (EvLoadX509KeyPair _ _ _ err) = (err = nil)"
| "prepares (EvListen _ _) = False"
| "prepares (EvGo _) = False"

text \<open>The error of a key-pair load or of a bind that failed.\<close>

fun failure_of :: "'h event \<Rightarrow> error option" where
  "failure_of (EvRegisterSite _ _ _) = None"
| "failure_of (EvLoadX509KeyPair _ _ _ err) = (if err \<noteq> nil then Some err else None)"
| "failure_of (EvListen _ err) = (if err \<noteq> nil then Some err else None)"
| "failure_of (EvGo _) = None"

text \<open>
  A trace stops at its first failure: no event before the last one is a failed load or
  bind; and if the last one is, the call returns its error, and before it nothing but
  preparation has happened for its port.
\<close>

definition stops_at_failure :: "'h event list \<Rightarrow> outcome option \<Rightarrow> bool" where
  "stops_at_failure evs r =
     ((\<forall>x\<in>set (butlast evs). failure_of x = None)
      \<and> (\<forall>e. evs \<noteq> [] \<and> failure_of (last evs) = Some e \<longrightarrow>
             r = Some (Returned e)
             \<and> (\<forall>x\<in>set (butlast evs). event_port x = event_port (last evs) \<longrightarrow> prepares x)))"

text \<open>A world where every load and bind succeeds and no serve loop ever returns.\<close>

definition load_ok :: "string \<Rightarrow> string \<Rightarrow> error" where
  "load_ok certFile keyFile = nil"

definition listen_ok :: "int \<Rightarrow> error" where
  "listen_ok port = nil"

definition loop_forever :: "int \<Rightarrow> error option" where
  "loop_forever port = None"

definition loop_forever_tls :: "int \<Rightarrow> string \<Rightarrow> string \<Rightarrow> error option" where
  "loop_forever_tls port certFile keyFile = None"

definition env_quiet :: env where
  "env_quiet =
     \<lparr>tls_LoadX509KeyPair = load_ok, net_Listen = listen_ok,
      http_ListenAndServe = loop_forever, http_ListenAndServeTLS = loop_forever_tls,
      spdy_ListenAndServeTLS = loop_forever_tls, http_Server_Serve = loop_forever,
      first_ready = 0\<rparr>"

text \<open>A world where the file "bad.pem" does not load, port 81 cannot be bound, and the
  plain serve loop on port 8080 fails.\<close>

definition load_faulty :: "string \<Rightarrow> string \<Rightarrow> error" where
  "load_faulty certFile keyFile =
     (if certFile = ''bad.pem'' then Err ''open bad.pem: no such file or directory'' else nil)"

definition listen_faulty :: "int \<Rightarrow> error" where
  "listen_faulty port =
     (if port = 81 then Err ''listen tcp :81: bind: address already in use'' else nil)"

definition loop_faulty :: "int \<Rightarrow> error option" where
  "loop_faulty port =
     (if port = 8080 then Some (Err ''listen tcp :8080: bind: address already in use'')
      else None)"

definition env_faulty :: env where
  "env_faulty =
     \<lparr>tls_LoadX509KeyPair = load_faulty, net_Listen = listen_faulty,
      http_ListenAndServe = loop_faulty, http_ListenAndServeTLS = loop_forever_tls,
      spdy_ListenAndServeTLS = loop_forever_tls, http_Server_Serve = loop_forever,
      first_ready = 0\<rparr>"

section \<open>Properties of the matcher chain\<close>

lemma strings_Index_lower: "- 1 \<le> strings_Index s substr"
  by (induction s) (auto simp: Let_def)

lemma strings_Index_byte: "(0 \<le> strings_Index s [c]) = (c \<in> set s)"
proof (induction s)
  case Nil
  show ?case by simp
next
  case (Cons x xs)
  have "- 1 \<le> strings_Index xs [c]" by (rule strings_Index_lower)
  with Cons show ?case by (auto simp: Let_def)
qed

lemma handlers_append_handler: "handlers (append_handler s entry) = handlers s @ [entry]"
  by (simp add: append_handler_def)

lemma handlers_range_patterns:
  "handlers (range_patterns m s h patterns) =
     handlers s @ map (\<lambda>pattern. \<lparr>Match = makeMatchFunc pattern m, Handler = h\<rparr>) patterns"
  by (induction patterns arbitrary: s) (simp_all add: handlers_append_handler)

lemma range_handlers_first:
  "\<forall>x\<in>set pre. \<not> Match x path \<Longrightarrow> Match m path \<Longrightarrow>
     range_handlers (pre @ m # post) path = Some (Handler m)"
  by (induction pre) simp_all

lemma range_handlers_none:
  "\<forall>x\<in>set hs. \<not> Match x path \<Longrightarrow> range_handlers hs path = None"
  by (induction hs) simp_all

text \<open>
  Claim C2. Dispatch follows the registration order. If the chain of a Site is
  \<open>pre @ m # post\<close>, no entry of \<open>pre\<close> accepts the request path and \<open>m\<close> does, the
  handler of \<open>m\<close> is called, whatever \<open>post\<close> holds. If no entry accepts the path, the
  Site's not-found handler \<open>f\<close> is called. Every registration method leaves the entries
  that are there in place and appends its own, one per pattern in the order given, equal
  ones included: nothing is sorted or removed.
\<close>

theorem Site_ServeHTTP_registration_order:
  "(handlers s = pre @ m # post \<longrightarrow> (\<forall>x\<in>set pre. \<not> Match x (Path r)) \<longrightarrow> Match m (Path r)
      \<longrightarrow> Site_ServeHTTP s r = Handled (Handler m))
   \<and> ((\<forall>x\<in>set (handlers s). \<not> Match x (Path r)) \<longrightarrow> notFound s = Some f
      \<longrightarrow> Site_ServeHTTP s r = Fallback f)
   \<and> handlers (Site_Always s h) = handlers s @ [\<lparr>Match = (\<lambda>_. True), Handler = h\<rparr>]
   \<and> handlers (Site_Match s h matchFunc) = handlers s @ [\<lparr>Match = matchFunc, Handler = h\<rparr>]
   \<and> handlers (Site_Contains s h patterns) =
        handlers s @ map (\<lambda>pattern. \<lparr>Match = makeMatchFunc pattern strings_Contains, Handler = h\<rparr>) patterns
   \<and> handlers (Site_Equals s h patterns) =
        handlers s @ map (\<lambda>pattern. \<lparr>Match = makeMatchFunc pattern stringEquals, Handler = h\<rparr>) patterns
   \<and> handlers (Site_EqualFold eqFold s h patterns) =
        handlers s @ map (\<lambda>pattern. \<lparr>Match = makeMatchFunc pattern eqFold, Handler = h\<rparr>) patterns
   \<and> handlers (Site_HasPrefix s h patterns) =
        handlers s @ map (\<lambda>pattern. \<lparr>Match = makeMatchFunc pattern strings_HasPrefix, Handler = h\<rparr>) patterns
   \<and> handlers (Site_HasSuffix s h patterns) =
        handlers s @ map (\<lambda>pattern. \<lparr>Match = makeMatchFunc pattern strings_HasSuffix, Handler = h\<rparr>) patterns"
proof -
  have first: "handlers s = pre @ m # post \<longrightarrow> (\<forall>x\<in>set pre. \<not> Match x (Path r))
      \<longrightarrow> Match m (Path r) \<longrightarrow> Site_ServeHTTP s r = Handled (Handler m)"
    by (simp add: Site_ServeHTTP_def range_handlers_first)
  have none: "(\<forall>x\<in>set (handlers s). \<not> Match x (Path r)) \<longrightarrow> notFound s = Some f
      \<longrightarrow> Site_ServeHTTP s r = Fallback f"
    by (simp add: Site_ServeHTTP_def range_handlers_none)
  show ?thesis
    using first none
    by (simp add: Site_Always_def Site_Match_def Site_Contains_def Site_Equals_def
          Site_EqualFold_def Site_HasPrefix_def Site_HasSuffix_def
          handlers_append_handler handlers_range_patterns)
qed

text \<open>
  The chain [equals "/a", equals "/a", always] on the path "/b": the third entry is the
  first that accepts; without it the not-found handler is called; the pattern given
  twice is in the chain twice.
\<close>

theorem Site_ServeHTTP_registration_order_witness:
  "Site_ServeHTTP
     (Site_Always (Site_Equals (NewSite ''example.com'' 80 (Some ''NF'')) ''B'' [''/a'', ''/a'']) ''C'')
     \<lparr>Host = ''example.com'', Path = ''/b''\<rparr> = Handled ''C''
   \<and> Site_ServeHTTP (Site_Equals (NewSite ''example.com'' 80 (Some ''NF'')) ''B'' [''/a'', ''/a''])
     \<lparr>Host = ''example.com'', Path = ''/b''\<rparr> = Fallback ''NF''
   \<and> length (handlers (Site_Equals (NewSite ''example.com'' 80 (Some ''NF'')) ''B'' [''/a'', ''/a''])) = 2"
proof -
  let ?e = "\<lparr>Match = makeMatchFunc ''/a'' stringEquals, Handler = ''B''\<rparr>"
  let ?s2 = "Site_Equals (NewSite ''example.com'' 80 (Some ''NF'')) ''B'' [''/a'', ''/a'']"
  let ?s3 = "Site_Always ?s2 ''C''"
  let ?r = "\<lparr>Host = ''example.com'', Path = ''/b''\<rparr>"
  have h2: "handlers ?s2 = [?e, ?e]"
    by (simp add: Site_Equals_def NewSite_def append_handler_def)
  have h3: "handlers ?s3 = [?e, ?e] @ \<lparr>Match = (\<lambda>_. True), Handler = ''C''\<rparr> # []"
    by (simp add: Site_Always_def Site_Equals_def NewSite_def append_handler_def)
  have no: "\<forall>x\<in>set [?e, ?e]. \<not> Match x (Path ?r)"
    by (simp add: makeMatchFunc_def stringEquals_def)
  have nf: "notFound ?s2 = Some ''NF''"
    by (simp add: Site_Equals_def NewSite_def append_handler_def)
  from Site_ServeHTTP_registration_order
         [of ?s3 "[?e, ?e]" "\<lparr>Match = (\<lambda>_. True), Handler = ''C''\<rparr>" "[]" ?r]
       h3 no
  have a: "Site_ServeHTTP ?s3 ?r = Handled ''C''" by simp
  from Site_ServeHTTP_registration_order [of ?s2 _ _ _ ?r "''NF''"] h2 no nf
  have b: "Site_ServeHTTP ?s2 ?r = Fallback ''NF''" by simp
  from a b h2 show ?thesis by simp
qed

text \<open>
  Claim C3. The claim expects the request for "/img/logo.png" to reach B, the handler
  registered with \<^verbatim>\<open>HasPrefix\<close> for "/img/". \<^verbatim>\<open>makeMatchFunc\<close> hands the pattern to
  \<^verbatim>\<open>strings.HasPrefix\<close> as the string to search and the path as the prefix, so the entry
  asks whether "/img/" starts with "/img/logo.png"; it does not, and the request falls
  through to C.
\<close>

theorem HasPrefix_img_dispatches_to_Always:
  "Site_ServeHTTP
     (Site_Always (Site_HasPrefix (NewSite ''example.com'' 80 None) ''B'' [''/img/'']) ''C'')
     \<lparr>Host = ''example.com'', Path = ''/img/logo.png''\<rparr> = Handled ''C''"
  by (simp add: Site_ServeHTTP_def Site_Always_def Site_HasPrefix_def NewSite_def
        append_handler_def makeMatchFunc_def strings_HasPrefix_def)

text \<open>
  Claim C8. A Site made by \<^verbatim>\<open>NewSite\<close> with a \<^verbatim>\<open>nil\<close> not-found handler keeps the
  \<^verbatim>\<open>nil\<close>; a request that no entry accepts ends in the call of that \<^verbatim>\<open>nil\<close> function
  value, a run-time panic, not in a not-found response.
\<close>

theorem NewSite_nil_notFound_panics:
  "Site_ServeHTTP (NewSite ''example.com'' 80 None) \<lparr>Host = ''example.com'', Path = ''/missing''\<rparr>
     = (NilFuncCall :: string response)"
  by (simp add: Site_ServeHTTP_def NewSite_def)

section \<open>Properties of the reverse proxy\<close>

lemma map_order_single: "map_order [k \<mapsto> v] order \<Longrightarrow> order = [k]"
proof -
  assume a: "map_order [k \<mapsto> v] order"
  then have d: "distinct order" and s: "set order = {k}"
    by (simp_all add: map_order_def)
  from s have "order \<noteq> []" by auto
  then obtain x xs where o: "order = x # xs" by (cases order) auto
  with s have x: "x = k" by auto
  from o d s x have "set xs \<subseteq> {k}" "k \<notin> set xs" by auto
  then have "xs = []" by (cases xs) auto
  with o x show ?thesis by simp
qed

text \<open>
  Claim C4. Take a proxy whose map holds the one key "example.com", with handler \<open>A\<close>,
  in any iteration order of the map and with any host/port splitter. The hosts
  "api.example.com" and "evilexample.com" go to \<open>A\<close> (a host without a colon is not
  split). The match is the textual suffix test and nothing else: a host without a colon
  goes to \<open>A\<close> if it ends in "example.com", whatever stands before the key, and takes
  the not-found path if it does not; a host with a colon that splits without error is
  treated the same way on its host part.
\<close>

theorem ReverseProxy_textual_suffix:
  "proxy p = [''example.com'' \<mapsto> A] \<Longrightarrow> map_order (proxy p) order \<Longrightarrow>
     ReverseProxy_ServeHTTP SplitHostPort order p \<lparr>Host = ''api.example.com'', Path = path\<rparr> = Handled A
     \<and> ReverseProxy_ServeHTTP SplitHostPort order p \<lparr>Host = ''evilexample.com'', Path = path\<rparr> = Handled A
     \<and> (\<forall>pre. CHR '':'' \<notin> set pre \<longrightarrow>
          ReverseProxy_ServeHTTP SplitHostPort order p \<lparr>Host = pre @ ''example.com'', Path = path\<rparr>
            = Handled A)
     \<and> (\<forall>host. CHR '':'' \<notin> set host \<longrightarrow> \<not> suffix ''example.com'' host \<longrightarrow>
          ReverseProxy_ServeHTTP SplitHostPort order p \<lparr>Host = host, Path = path\<rparr>
            = (case NotFound p of Some nf \<Rightarrow> Fallback nf | None \<Rightarrow> NoResponse))
     \<and> (\<forall>hostport host port. CHR '':'' \<in> set hostport \<longrightarrow> SplitHostPort hostport = (host, port, nil) \<longrightarrow>
          ReverseProxy_ServeHTTP SplitHostPort order p \<lparr>Host = hostport, Path = path\<rparr>
            = (if suffix ''example.com'' host then Handled A
               else case NotFound p of Some nf \<Rightarrow> Fallback nf | None \<Rightarrow> NoResponse))"
proof -
  assume m: "proxy p = [''example.com'' \<mapsto> A]" and o: "map_order (proxy p) order"
  from m o have ord: "order = [''example.com'']" by (simp add: map_order_single)
  have scan: "range_proxy (proxy p) order host
      = (if suffix ''example.com'' host then Some A else None)" for host
    by (simp add: ord m strings_HasSuffix_def)
  have plain: "ReverseProxy_ServeHTTP SplitHostPort order p \<lparr>Host = host, Path = path\<rparr>
      = (if suffix ''example.com'' host then Handled A
         else case NotFound p of Some nf \<Rightarrow> Fallback nf | None \<Rightarrow> NoResponse)"
    if c: "CHR '':'' \<notin> set host" for host
  proof -
    have "\<not> 0 \<le> strings_Index host '':''" using c by (simp add: strings_Index_byte)
    then show ?thesis
      by (simp add: ReverseProxy_ServeHTTP_def scan call_NotFound_def)
  qed
  have split: "ReverseProxy_ServeHTTP SplitHostPort order p \<lparr>Host = hostport, Path = path\<rparr>
      = (if suffix ''example.com'' host then Handled A
         else case NotFound p of Some nf \<Rightarrow> Fallback nf | None \<Rightarrow> NoResponse)"
    if c: "CHR '':'' \<in> set hostport" and s: "SplitHostPort hostport = (host, port, nil)"
    for hostport host port
  proof -
    have "0 \<le> strings_Index hostport '':''" using c by (simp add: strings_Index_byte)
    with s show ?thesis
      by (simp add: ReverseProxy_ServeHTTP_def scan call_NotFound_def)
  qed
  have gen: "ReverseProxy_ServeHTTP SplitHostPort order p \<lparr>Host = pre @ ''example.com'', Path = path\<rparr>
      = Handled A" if c: "CHR '':'' \<notin> set pre" for pre
  proof -
    from c have "CHR '':'' \<notin> set (pre @ ''example.com'')" by simp
    from plain [OF this] show ?thesis by (simp add: suffix_def)
  qed
  from gen [of "''api.''"] gen [of "''evil''"] gen plain split show ?thesis by simp
qed

text \<open>The proxy built by \<^verbatim>\<open>NewProxy\<close> and one \<^verbatim>\<open>Register\<close>: both hosts of the claim
  reach the handler; "example.org" and "example.com.evil.org" do not, and with no
  not-found handler set nothing is called; "api.example.com:8080" is split and reaches
  the handler.\<close>

theorem ReverseProxy_textual_suffix_witness:
  "ReverseProxy_ServeHTTP net_SplitHostPort [''example.com'']
      (snd (ReverseProxy_Register NewProxy ''example.com'' ''A''))
      \<lparr>Host = ''api.example.com'', Path = ''/''\<rparr> = Handled ''A''
   \<and> ReverseProxy_ServeHTTP net_SplitHostPort [''example.com'']
      (snd (ReverseProxy_Register NewProxy ''example.com'' ''A''))
      \<lparr>Host = ''evilexample.com'', Path = ''/''\<rparr> = Handled ''A''
   \<and> ReverseProxy_ServeHTTP net_SplitHostPort [''example.com'']
      (snd (ReverseProxy_Register NewProxy ''example.com'' ''A''))
      \<lparr>Host = ''example.org'', Path = ''/''\<rparr> = NoResponse
   \<and> ReverseProxy_ServeHTTP net_SplitHostPort [''example.com'']
      (snd (ReverseProxy_Register NewProxy ''example.com'' ''A''))
      \<lparr>Host = ''example.com.evil.org'', Path = ''/''\<rparr> = NoResponse
   \<and> ReverseProxy_ServeHTTP net_SplitHostPort [''example.com'']
      (snd (ReverseProxy_Register NewProxy ''example.com'' ''A''))
      \<lparr>Host = ''api.example.com:8080'', Path = ''/''\<rparr> = Handled ''A''"
proof -
  let ?p = "snd (ReverseProxy_Register NewProxy ''example.com'' ''A'')"
  have m: "proxy ?p = [''example.com'' \<mapsto> ''A'']"
    by (simp add: ReverseProxy_Register_def NewProxy_def)
  have o: "map_order (proxy ?p) [''example.com'']"
    by (simp add: m map_order_def)
  have n: "NotFound ?p = None"
    by (simp add: ReverseProxy_Register_def NewProxy_def)
  have s1: "\<not> suffix ''example.com'' ''example.org''"
    and s2: "\<not> suffix ''example.com'' ''example.com.evil.org''"
    and s3: "suffix ''example.com'' ''api.example.com''"
    by (simp_all add: suffix_to_prefix)
  have sp: "net_SplitHostPort ''api.example.com:8080'' = (''api.example.com'', ''8080'', nil)"
    by (simp add: net_SplitHostPort_def LastIndexByte_def addrErr_def Let_def)
  note t = ReverseProxy_textual_suffix [OF m o, of net_SplitHostPort "''/''"]
  from t have a: "ReverseProxy_ServeHTTP net_SplitHostPort [''example.com''] ?p
      \<lparr>Host = ''api.example.com'', Path = ''/''\<rparr> = Handled ''A''"
    and b: "ReverseProxy_ServeHTTP net_SplitHostPort [''example.com''] ?p
      \<lparr>Host = ''evilexample.com'', Path = ''/''\<rparr> = Handled ''A''" by simp_all
  from t have none: "\<forall>host. CHR '':'' \<notin> set host \<longrightarrow> \<not> suffix ''example.com'' host \<longrightarrow>
          ReverseProxy_ServeHTTP net_SplitHostPort [''example.com''] ?p \<lparr>Host = host, Path = ''/''\<rparr>
            = (case NotFound ?p of Some nf \<Rightarrow> Fallback nf | None \<Rightarrow> NoResponse)"
    by blast
  from none [rule_format, of "''example.org''"] s1 n
  have c: "ReverseProxy_ServeHTTP net_SplitHostPort [''example.com''] ?p
      \<lparr>Host = ''example.org'', Path = ''/''\<rparr> = NoResponse" by simp
  from none [rule_format, of "''example.com.evil.org''"] s2 n
  have d: "ReverseProxy_ServeHTTP net_SplitHostPort [''example.com''] ?p
      \<lparr>Host = ''example.com.evil.org'', Path = ''/''\<rparr> = NoResponse" by simp
  from t have split: "\<forall>hostport host port. CHR '':'' \<in> set hostport \<longrightarrow>
          net_SplitHostPort hostport = (host, port, nil) \<longrightarrow>
          ReverseProxy_ServeHTTP net_SplitHostPort [''example.com''] ?p \<lparr>Host = hostport, Path = ''/''\<rparr>
            = (if suffix ''example.com'' host then Handled ''A''
               else case NotFound ?p of Some nf \<Rightarrow> Fallback nf | None \<Rightarrow> NoResponse)"
    by blast
  from split [rule_format, of "''api.example.com:8080''" "''api.example.com''" "''8080''"] sp s3
  have e: "ReverseProxy_ServeHTTP net_SplitHostPort [''example.com''] ?p
      \<lparr>Host = ''api.example.com:8080'', Path = ''/''\<rparr> = Handled ''A''" by simp
  from a b c d e show ?thesis by simp
qed

text \<open>
  Claim C5. For every proxy, key and handler: when the key is absent, \<^verbatim>\<open>Register\<close>
  finishes and the map afterwards is the old one with the key set to the handler (the
  not-found handler is untouched); when the key is present, \<^verbatim>\<open>Register\<close> panics with
  "Domain already registered." (a panic, not an error value: the method has no result)
  and the proxy is as before. \<^verbatim>\<open>RegisterSite\<close> does the same with the Site's name as key
  and the Site as handler.
\<close>

theorem ReverseProxy_Register_once:
  "(proxy p domain = None \<longrightarrow>
      fst (ReverseProxy_Register p domain h) = Done
      \<and> proxy (snd (ReverseProxy_Register p domain h)) = (proxy p)(domain \<mapsto> h)
      \<and> NotFound (snd (ReverseProxy_Register p domain h)) = NotFound p)
   \<and> (proxy p domain \<noteq> None \<longrightarrow>
      ReverseProxy_Register p domain h = (Panic ''Domain already registered.'', p))
   \<and> (proxy q (Name site) = None \<longrightarrow>
      fst (ReverseProxy_RegisterSite q site) = Done
      \<and> proxy (snd (ReverseProxy_RegisterSite q site)) = (proxy q)(Name site \<mapsto> site)
      \<and> NotFound (snd (ReverseProxy_RegisterSite q site)) = NotFound q)
   \<and> (proxy q (Name site) \<noteq> None \<longrightarrow>
      ReverseProxy_RegisterSite q site = (Panic ''Domain already registered.'', q))"
  by (simp add: ReverseProxy_Register_def ReverseProxy_RegisterSite_def)

text \<open>Registering "example.com" on a new proxy, then once more.\<close>

theorem ReverseProxy_Register_once_witness:
  "fst (ReverseProxy_Register NewProxy ''example.com'' ''A'') = Done
   \<and> proxy (snd (ReverseProxy_Register NewProxy ''example.com'' ''A'')) ''example.com'' = Some ''A''
   \<and> ReverseProxy_Register (snd (ReverseProxy_Register NewProxy ''example.com'' ''A'')) ''example.com'' ''B''
       = (Panic ''Domain already registered.'', snd (ReverseProxy_Register NewProxy ''example.com'' ''A''))
   \<and> fst (ReverseProxy_RegisterSite NewProxy (NewSite ''example.com'' 80 (None :: string option))) = Done
   \<and> ReverseProxy_RegisterSite
        (snd (ReverseProxy_RegisterSite NewProxy (NewSite ''example.com'' 80 (None :: string option))))
        (NewSite ''example.com'' 80 (Some ''NF''))
       = (Panic ''Domain already registered.'',
          snd (ReverseProxy_RegisterSite NewProxy (NewSite ''example.com'' 80 None)))"
proof -
  let ?p = "NewProxy :: string ReverseProxy"
  let ?p1 = "snd (ReverseProxy_Register ?p ''example.com'' ''A'')"
  let ?q = "NewProxy :: string Site ReverseProxy"
  let ?s = "NewSite ''example.com'' 80 (None :: string option)"
  let ?s' = "NewSite ''example.com'' 80 (Some ''NF'')"
  let ?q1 = "snd (ReverseProxy_RegisterSite ?q ?s)"
  have a: "proxy ?p ''example.com'' = None" by (simp add: NewProxy_def)
  have b: "proxy ?q (Name ?s) = None" by (simp add: NewProxy_def)
  note first = ReverseProxy_Register_once [of ?p "''example.com''" "''A''" ?q ?s]
  from first a b have c: "proxy ?p1 ''example.com'' \<noteq> None" by simp
  from first a b have d: "proxy ?q1 (Name ?s') \<noteq> None" by (simp add: NewSite_def)
  note second = ReverseProxy_Register_once [of ?p1 "''example.com''" "''B''" ?q1 ?s']
  from first second a b c d show ?thesis by simp
qed

text \<open>
  Claim C6. If the Host of a request contains a colon and the splitter returns an error
  for it, a proxy whose \<^verbatim>\<open>NotFound\<close> is set calls that handler: the result is neither
  a panic nor the handler of a registered domain, whatever the map holds and in whatever
  order it is walked.
\<close>

theorem ReverseProxy_malformed_host:
  "CHR '':'' \<in> set (Host r) \<Longrightarrow> SplitHostPort (Host r) = (host, port, err) \<Longrightarrow> err \<noteq> nil \<Longrightarrow>
     NotFound p = Some nf \<Longrightarrow>
     ReverseProxy_ServeHTTP SplitHostPort order p r = Fallback nf"
proof -
  assume c: "CHR '':'' \<in> set (Host r)" and s: "SplitHostPort (Host r) = (host, port, err)"
    and e: "err \<noteq> nil" and n: "NotFound p = Some nf"
  from c have "0 \<le> strings_Index (Host r) '':''" by (simp add: strings_Index_byte)
  with s e n show ?thesis
    by (simp add: ReverseProxy_ServeHTTP_def call_NotFound_def)
qed

text \<open>The host "example.com:80:90" (too many colons) on a proxy that has "example.com"
  registered and a not-found handler.\<close>

theorem ReverseProxy_malformed_host_witness:
  "ReverseProxy_ServeHTTP net_SplitHostPort [''example.com'']
     ((snd (ReverseProxy_Register NewProxy ''example.com'' ''A''))\<lparr>NotFound := Some ''NF''\<rparr>)
     \<lparr>Host = ''example.com:80:90'', Path = ''/''\<rparr> = Fallback ''NF''"
proof -
  let ?r = "\<lparr>Host = ''example.com:80:90'', Path = ''/''\<rparr>"
  let ?p = "(snd (ReverseProxy_Register NewProxy ''example.com'' ''A''))\<lparr>NotFound := Some ''NF''\<rparr>"
  have c: "CHR '':'' \<in> set (Host ?r)" by simp
  have s: "net_SplitHostPort (Host ?r) = ([], [], Err ''too many colons in address'')"
    by (simp add: net_SplitHostPort_def LastIndexByte_def addrErr_def Let_def)
  have e: "Err ''too many colons in address'' \<noteq> nil" by simp
  have n: "NotFound ?p = Some ''NF''" by simp
  from ReverseProxy_malformed_host
         [where SplitHostPort = net_SplitHostPort and r = ?r and p = ?p
            and order = "[''example.com'']", OF c s e n]
  show ?thesis .
qed

section \<open>Properties of \<^verbatim>\<open>Server.Serve\<close>\<close>

lemma snd_after: "snd (after evs x) = snd x"
  by (cases x) simp

lemma fst_after: "fst (after evs x) = evs @ fst x"
  by (cases x) simp

lemma serve_group_many:
  "rest \<noteq> [] \<Longrightarrow>
   serve_group env port (site0 # rest) =
     (if mixed_auth (auth site0 \<noteq> None) rest then
        ([], Some (Returned (errors_New
                     ''Multiple sites on the same port with mixed HTTPS usage.'')))
      else
        (case range_sites env port (auth site0 \<noteq> None) 0 (site0 # rest) NewProxy
                (make_Certificates (length (site0 # rest))) of
           (evs, Inl out) \<Rightarrow> (evs, Some out)
         | (evs, Inr (p, certs)) \<Rightarrow>
             (case BuildNameToCertificate certs of
                Panic msg \<Rightarrow> (evs, Some (Panicked msg))
              | Done \<Rightarrow>
                  if net_Listen env port \<noteq> nil
                  then (evs @ [EvListen port (net_Listen env port)],
                        Some (Returned (net_Listen env port)))
                  else (evs @ [EvListen port (net_Listen env port),
                               EvGo (Go_serveMany port p
                                      (if auth site0 \<noteq> None then Some certs else None))],
                        None))))"
proof (cases rest)
  case Nil
  assume "rest \<noteq> []"
  with Nil show ?thesis by simp
next
  case (Cons site1 rest')
  show ?thesis unfolding Cons by (simp only: serve_group.simps Let_def)
qed

text \<open>The five ways the body of the loop can go on a shared port.\<close>

lemma serve_group_many_cases
  [consumes 1, case_names mixed stopped build_panicked listen_failed started]:
  assumes "rest \<noteq> []"
  obtains
    "mixed_auth (auth site0 \<noteq> None) rest"
    "serve_group env port (site0 # rest) =
       ([], Some (Returned (errors_New
                    ''Multiple sites on the same port with mixed HTTPS usage.'')))"
  | evs out where
    "\<not> mixed_auth (auth site0 \<noteq> None) rest"
    "range_sites env port (auth site0 \<noteq> None) 0 (site0 # rest) NewProxy
       (make_Certificates (length (site0 # rest))) = (evs, Inl out)"
    "serve_group env port (site0 # rest) = (evs, Some out)"
  | evs p certs where
    "\<not> mixed_auth (auth site0 \<noteq> None) rest"
    "range_sites env port (auth site0 \<noteq> None) 0 (site0 # rest) NewProxy
       (make_Certificates (length (site0 # rest))) = (evs, Inr (p, certs))"
    "None \<in> set certs"
    "serve_group env port (site0 # rest) = (evs, Some (Panicked ''index out of range''))"
  | evs p certs where
    "\<not> mixed_auth (auth site0 \<noteq> None) rest"
    "range_sites env port (auth site0 \<noteq> None) 0 (site0 # rest) NewProxy
       (make_Certificates (length (site0 # rest))) = (evs, Inr (p, certs))"
    "None \<notin> set certs"
    "net_Listen env port \<noteq> nil"
    "serve_group env port (site0 # rest) =
       (evs @ [EvListen port (net_Listen env port)], Some (Returned (net_Listen env port)))"
  | evs p certs where
    "\<not> mixed_auth (auth site0 \<noteq> None) rest"
    "range_sites env port (auth site0 \<noteq> None) 0 (site0 # rest) NewProxy
       (make_Certificates (length (site0 # rest))) = (evs, Inr (p, certs))"
    "None \<notin> set certs"
    "net_Listen env port = nil"
    "serve_group env port (site0 # rest) =
       (evs @ [EvListen port nil,
               EvGo (Go_serveMany port p (if auth site0 \<noteq> None then Some certs else None))],
        None)"
proof -
  obtain evs res where rs:
    "range_sites env port (auth site0 \<noteq> None) 0 (site0 # rest) NewProxy
       (make_Certificates (length (site0 # rest))) = (evs, res)"
    by (cases "range_sites env port (auth site0 \<noteq> None) 0 (site0 # rest) NewProxy
       (make_Certificates (length (site0 # rest)))") auto
  show thesis
  proof (cases "mixed_auth (auth site0 \<noteq> None) rest")
    case True
    with assms that(1) show thesis by (simp add: serve_group_many)
  next
    case False
    show thesis
    proof (cases res)
      case (Inl out)
      with assms False rs that(2) show thesis by (simp add: serve_group_many)
    next
      case (Inr pc)
      obtain p certs where pc: "pc = (p, certs)" by (cases pc) auto
      show thesis
      proof (cases "None \<in> set certs")
        case True
        with assms False rs Inr pc that(3) [of evs p certs] show thesis
          by (simp add: serve_group_many BuildNameToCertificate_def)
      next
        case built: False
        show thesis
        proof (cases "net_Listen env port = nil")
          case True
          with assms False rs Inr pc built that(5) [of evs p certs] show thesis
            by (simp add: serve_group_many BuildNameToCertificate_def)
        next
          case nf: False
          with assms False rs Inr pc built that(4) [of evs p certs] show thesis
            by (simp add: serve_group_many BuildNameToCertificate_def)
        qed
      qed
    qed
  qed
qed

text \<open>How the loop over the sites of a shared port can end the call.\<close>

lemma range_sites_ends:
  "range_sites env port a i ss p certs = (evs, Inl out) \<Longrightarrow>
     (\<exists>e. out = Returned e \<and> e \<noteq> nil
          \<and> (\<exists>certFile keyFile. e = tls_LoadX509KeyPair env certFile keyFile))
     \<or> out = Panicked ''Domain already registered.''
     \<or> out = Panicked ''index out of range''"
proof (induction ss arbitrary: i p certs evs)
  case Nil
  then show ?case by simp
next
  case (Cons site rest)
  obtain evs1 res1 where r1: "range_sites env port a (Suc i) rest
      (p\<lparr>proxy := (proxy p)(Name site \<mapsto> site)\<rparr>) certs = (evs1, res1)"
    by (cases "range_sites env port a (Suc i) rest
      (p\<lparr>proxy := (proxy p)(Name site \<mapsto> site)\<rparr>) certs") auto
  show ?case
  proof (cases "auth site")
    case None
    with Cons.prems r1 have
      "out = Panicked ''Domain already registered.'' \<or> out = Panicked ''index out of range''
       \<or> res1 = Inl out"
      by (auto simp: ReverseProxy_RegisterSite_def Let_def split: if_splits)
    with Cons.IH r1 show ?thesis by blast
  next
    case (Some ck)
    obtain certFile keyFile where ck: "ck = (certFile, keyFile)" by (cases ck) auto
    obtain evs2 res2 where r2: "range_sites env port a (Suc i) rest
        (p\<lparr>proxy := (proxy p)(Name site \<mapsto> site)\<rparr>) (certs[i := Some (certFile, keyFile)])
        = (evs2, res2)"
      by (cases "range_sites env port a (Suc i) rest
        (p\<lparr>proxy := (proxy p)(Name site \<mapsto> site)\<rparr>) (certs[i := Some (certFile, keyFile)])") auto
    from Cons.prems Some ck r1 r2 have
      "(\<exists>e. out = Returned e \<and> e \<noteq> nil
          \<and> (\<exists>certFile keyFile. e = tls_LoadX509KeyPair env certFile keyFile))
       \<or> out = Panicked ''Domain already registered.''
       \<or> res1 = Inl out \<or> res2 = Inl out"
      by (auto simp: ReverseProxy_RegisterSite_def Let_def split: if_splits)
    with Cons.IH r1 r2 show ?thesis by blast
  qed
qed

text \<open>How the body of the loop over the groups can end the call.\<close>

lemma serve_group_ends:
  assumes "snd (serve_group env port ss) = Some out"
  shows "(\<exists>e. out = Returned e \<and> e \<noteq> nil
          \<and> (e = errors_New ''Multiple sites on the same port with mixed HTTPS usage.''
              \<or> (\<exists>certFile keyFile. e = tls_LoadX509KeyPair env certFile keyFile)
              \<or> (\<exists>port. e = net_Listen env port)))
     \<or> out = Panicked ''Domain already registered.''
     \<or> out = Panicked ''index out of range''"
proof (cases ss)
  case Nil
  with assms show ?thesis by simp
next
  case (Cons site0 rest)
  show ?thesis
  proof (cases "rest = []")
    case True
    with Cons assms show ?thesis by (auto split: option.splits if_splits)
  next
    case False
    then show ?thesis
    proof (cases rule: serve_group_many_cases [where ?site0.0 = site0 and env = env and port = port])
      case mixed
      with assms Cons show ?thesis by (auto simp: errors_New_def)
    next
      case (stopped evs out')
      with assms Cons have "out' = out" by simp
      with range_sites_ends [OF stopped(2)] show ?thesis by blast
    next
      case (build_panicked evs p certs)
      with assms Cons show ?thesis by simp
    next
      case (listen_failed evs p certs)
      with assms Cons show ?thesis by auto
    next
      case (started evs p certs)
      with assms Cons show ?thesis by simp
    qed
  qed
qed

lemma serve_group_Returned:
  assumes "snd (serve_group env port ss) = Some (Returned e)"
  shows "e \<noteq> nil \<and> (e = errors_New ''Multiple sites on the same port with mixed HTTPS usage.''
        \<or> (\<exists>certFile keyFile. e = tls_LoadX509KeyPair env certFile keyFile)
        \<or> (\<exists>port. e = net_Listen env port))"
  using serve_group_ends [OF assms] by simp

lemma range_portMap_stop:
  "snd (range_portMap env portMap order) = Some out \<Longrightarrow>
     \<exists>port ss. port \<in> set order \<and> portMap port = Some ss \<and> snd (serve_group env port ss) = Some out"
proof (induction order)
  case Nil
  then show ?case by simp
next
  case (Cons port rest)
  show ?case
  proof (cases "portMap port")
    case None
    with Cons show ?thesis by auto
  next
    case (Some ss)
    obtain evs r where sg: "serve_group env port ss = (evs, r)"
      by (cases "serve_group env port ss") auto
    show ?thesis
    proof (cases r)
      case None
      with Some sg Cons show ?thesis by (auto simp: snd_after)
    next
      case (Some out')
      with \<open>portMap port = Some ss\<close> sg Cons.prems have "out' = out" by simp
      with Some \<open>portMap port = Some ss\<close> sg show ?thesis by auto
    qed
  qed
qed

lemma run_goroutine_sends_errors: "x \<in> set (run_goroutine env g) \<Longrightarrow> x \<noteq> nil"
  by (cases g) (auto simp: serveSPDY_def serveHTTPS_def serveHTTP_def serveMany_def
        send_if_error_def split: option.splits if_splits)

lemma receive_errChan_Returned:
  assumes "receive_errChan env gs = Returned e"
  shows "e \<noteq> nil \<and> (\<exists>g\<in>set gs. e \<in> set (run_goroutine env g))"
proof -
  define sent where "sent = concat (map (run_goroutine env) gs)"
  from assms have r: "(if sent = [] then Blocked
      else Returned (sent ! (first_ready env mod length sent))) = Returned e"
    unfolding receive_errChan_def Let_def sent_def [symmetric] .
  then have ne: "sent \<noteq> []" by (auto split: if_splits)
  with r have e: "e = sent ! (first_ready env mod length sent)" by simp
  from ne have "first_ready env mod length sent < length sent" by simp
  then have "sent ! (first_ready env mod length sent) \<in> set sent" by (rule nth_mem)
  with e have "e \<in> set (concat (map (run_goroutine env) gs))" by (simp add: sent_def)
  then obtain g where g: "g \<in> set gs" "e \<in> set (run_goroutine env g)" by auto
  with run_goroutine_sends_errors [of e env g] show ?thesis by blast
qed

text \<open>
  Claim C9. Whenever \<^verbatim>\<open>Serve\<close> returns, the value is not \<^verbatim>\<open>nil\<close>: it is the
  mixed-HTTPS error, an error of a key-pair load, an error of a bind, or a value that one
  of the goroutines started in this call sent on the error channel (and a goroutine
  sends only the non-\<^verbatim>\<open>nil\<close> error of its serve loop).
\<close>

theorem Serve_returns_error:
  "Server_Serve env order (s :: 'h Server) = (evs, Returned e) \<Longrightarrow>
     e \<noteq> nil
     \<and> (e = errors_New ''Multiple sites on the same port with mixed HTTPS usage.''
        \<or> (\<exists>certFile keyFile. e = tls_LoadX509KeyPair env certFile keyFile)
        \<or> (\<exists>port. e = net_Listen env port)
        \<or> (\<exists>g\<in>set (started evs). e \<in> set (run_goroutine env g)))"
proof -
  assume r: "Server_Serve env order s = (evs, Returned e)"
  let ?pm = "collect_sites (sites s) Map.empty"
  obtain evs' res where rp: "range_portMap env ?pm order = (evs', res)"
    by (cases "range_portMap env ?pm order") auto
  show ?thesis
  proof (cases res)
    case None
    with r rp have "evs' = evs" "receive_errChan env (started evs) = Returned e"
      by (auto simp: Server_Serve_def)
    with receive_errChan_Returned [of env "started evs" e] show ?thesis by blast
  next
    case (Some out)
    with r rp have "out = Returned e" by (simp add: Server_Serve_def)
    with Some rp have "snd (range_portMap env ?pm order) = Some (Returned e)" by simp
    from range_portMap_stop [OF this]
    obtain q and ss :: "'h Site list" where "snd (serve_group env q ss) = Some (Returned e)"
      by blast
    from serve_group_Returned [OF this] show ?thesis by blast
  qed
qed

text \<open>One plain Site on port 8080 in the faulty world: its goroutine fails to bind and
  sends the error, which \<^verbatim>\<open>Serve\<close> returns.\<close>

theorem Serve_returns_error_witness:
  "Server_Serve env_faulty [8080] (NewServerFromSites [NewSite ''example.com'' 8080 (None :: string option)])
     = ([EvGo (Go_serveHTTP 8080 (NewSite ''example.com'' 8080 None))],
        Returned (Err ''listen tcp :8080: bind: address already in use''))
   \<and> Err ''listen tcp :8080: bind: address already in use'' \<noteq> nil"
proof -
  have run: "Server_Serve env_faulty [8080]
      (NewServerFromSites [NewSite ''example.com'' 8080 (None :: string option)])
     = ([EvGo (Go_serveHTTP 8080 (NewSite ''example.com'' 8080 None))],
        Returned (Err ''listen tcp :8080: bind: address already in use''))"
    by (simp add: Server_Serve_def NewServerFromSites_def NewSite_def receive_errChan_def
          serveHTTP_def send_if_error_def env_faulty_def loop_faulty_def)
  from Serve_returns_error [OF run] run show ?thesis by simp
qed

lemma collect_sites_lookup:
  "collect_sites ss portMap port =
     (if filter (has_port port) ss = [] then portMap port
      else Some ((case portMap port of None \<Rightarrow> [] | Some old \<Rightarrow> old) @ filter (has_port port) ss))"
  by (induction ss arbitrary: portMap) (auto simp: has_port_def split: option.splits)

lemma collect_sites_port_group:
  "collect_sites (sites s) Map.empty port =
     (if port_group s port = [] then None else Some (port_group s port))"
  by (simp add: collect_sites_lookup port_group_def)

lemma port_group_Port: "site \<in> set (port_group s port) \<Longrightarrow> Port site = port"
  by (simp add: port_group_def has_port_def)

lemma mixed_auth_iff: "mixed_auth a ss = (\<exists>x\<in>set ss. has_credentials x \<noteq> a)"
  by (induction ss) (auto simp: has_credentials_def simp del: not_None_eq)



lemma range_sites_ports:
  "x \<in> set (fst (range_sites env port a i ss p certs)) \<Longrightarrow> event_port x = port"
proof (induction ss arbitrary: i p certs)
  case Nil
  then show ?case by simp
next
  case (Cons site rest)
  then show ?case
    by (auto simp: ReverseProxy_RegisterSite_def Let_def fst_after
          split: if_splits option.splits prod.splits)
qed

lemma range_sites_ports_eq:
  "range_sites env port a i ss p certs = (evs, res) \<Longrightarrow> x \<in> set evs \<Longrightarrow> event_port x = port"
  using range_sites_ports [of x env port a i ss p certs] by simp

lemma serve_group_ports:
  assumes "\<forall>site\<in>set ss. Port site = port" and "x \<in> set (fst (serve_group env port ss))"
  shows "event_port x = port"
proof (cases ss)
  case Nil
  with assms show ?thesis by simp
next
  case (Cons site0 rest)
  show ?thesis
  proof (cases "rest = []")
    case True
    with Cons assms show ?thesis by (auto split: option.splits if_splits)
  next
    case False
    then show ?thesis
    proof (cases rule: serve_group_many_cases [where ?site0.0 = site0 and env = env and port = port])
      case mixed
      with assms Cons show ?thesis by simp
    next
      case (stopped evs out)
      with assms Cons range_sites_ports_eq [OF stopped(2), of x]
      show ?thesis by simp
    next
      case (build_panicked evs p certs)
      with assms Cons range_sites_ports_eq [OF build_panicked(2), of x]
      show ?thesis by simp
    next
      case (listen_failed evs p certs)
      with assms Cons range_sites_ports_eq [OF listen_failed(2), of x]
      show ?thesis by auto
    next
      case (started evs p certs)
      with assms Cons range_sites_ports_eq [OF started(2), of x]
      show ?thesis by auto
    qed
  qed
qed

text \<open>Every event of the loop over the groups comes from the group of its port.\<close>

lemma range_portMap_events:
  assumes wf: "\<forall>q ss. portMap q = Some ss \<longrightarrow> (\<forall>site\<in>set ss. Port site = q)"
    and x: "x \<in> set (fst (range_portMap env portMap order))"
  shows "event_port x \<in> set order \<and>
     (\<exists>ss. portMap (event_port x) = Some ss \<and> x \<in> set (fst (serve_group env (event_port x) ss)))"
  using x
proof (induction order)
  case Nil
  then show ?case by simp
next
  case (Cons port rest)
  show ?case
  proof (cases "portMap port")
    case None
    with Cons show ?thesis by auto
  next
    case (Some ss)
    obtain evs r where sg: "serve_group env port ss = (evs, r)"
      by (cases "serve_group env port ss") auto
    have here: "event_port y = port" if "y \<in> set evs" for y
      using that sg Some wf serve_group_ports [of ss port y env] by auto
    show ?thesis
    proof (cases r)
      case None
      with Some sg Cons.prems have "x \<in> set evs \<or> x \<in> set (fst (range_portMap env portMap rest))"
        by (auto simp: fst_after)
      then show ?thesis
      proof
        assume "x \<in> set evs"
        with here [of x] Some sg show ?thesis by auto
      next
        assume "x \<in> set (fst (range_portMap env portMap rest))"
        with Cons.IH show ?thesis by auto
      qed
    next
      case (Some out)
      with \<open>portMap port = Some ss\<close> sg Cons.prems have "x \<in> set evs" by simp
      with here [of x] \<open>portMap port = Some ss\<close> sg show ?thesis by auto
    qed
  qed
qed

lemma range_portMap_reaches:
  assumes "\<And>q ss. q \<in> set pre \<Longrightarrow> portMap q = Some ss \<Longrightarrow> snd (serve_group env q ss) = None"
    and "portMap port = Some g" and "snd (serve_group env port g) = Some out"
  shows "snd (range_portMap env portMap (pre @ port # post)) = Some out"
  using assms(1)
proof (induction pre)
  case Nil
  with assms(2,3) show ?case by (auto split: prod.splits option.splits)
next
  case (Cons q pre)
  have IH: "snd (range_portMap env portMap (pre @ port # post)) = Some out"
    using Cons by simp
  show ?case
  proof (cases "portMap q")
    case None
    with IH show ?thesis by simp
  next
    case (Some ss)
    with Cons.prems [of q ss] have "snd (serve_group env q ss) = None" by simp
    then obtain evs where "serve_group env q ss = (evs, None)"
      by (cases "serve_group env q ss") auto
    with Some IH show ?thesis by (simp add: snd_after)
  qed
qed


lemma Server_Serve_stop:
  "snd (range_portMap env (collect_sites (sites s) Map.empty) order) = Some out \<Longrightarrow>
     snd (Server_Serve env order s) = out"
  by (auto simp: Server_Serve_def split: prod.splits option.splits)

lemma fst_Server_Serve:
  "fst (Server_Serve env order s) = fst (range_portMap env (collect_sites (sites s) Map.empty) order)"
  by (auto simp: Server_Serve_def split: prod.splits option.splits)

lemma Server_Serve_events:
  assumes "x \<in> set (fst (Server_Serve env order s))"
  shows "x \<in> set (fst (serve_group env (event_port x) (port_group s (event_port x))))"
proof -
  let ?pm = "collect_sites (sites s) Map.empty"
  have wf: "\<forall>q ss. ?pm q = Some ss \<longrightarrow> (\<forall>site\<in>set ss. Port site = q)"
    by (auto simp: collect_sites_port_group port_group_Port split: if_splits)
  from assms have "x \<in> set (fst (range_portMap env ?pm order))" by (simp add: fst_Server_Serve)
  from range_portMap_events [OF wf this]
  obtain ss where "?pm (event_port x) = Some ss"
    "x \<in> set (fst (serve_group env (event_port x) ss))" by blast
  then show ?thesis by (simp add: collect_sites_port_group split: if_splits)
qed

lemma dom_collect_sites:
  "dom (collect_sites (sites (s :: 'h Server)) Map.empty) = Port ` set (sites s)"
proof -
  have "(port_group s q \<noteq> []) = (q \<in> Port ` set (sites s))" for q
    by (auto simp: port_group_def has_port_def filter_empty_conv)
  then show ?thesis
    by (auto simp: dom_def collect_sites_port_group)
qed

lemma map_order_portMap:
  "map_order (collect_sites (sites (s :: 'h Server)) Map.empty) order =
     (distinct order \<and> set order = Port ` set (sites s))"
  by (simp add: map_order_def dom_collect_sites)




lemma range_sites_duplicate:
  assumes "\<not> distinct (map Name ss) \<or> (\<exists>x\<in>set ss. proxy p (Name x) \<noteq> None)"
  shows "snd (range_sites env port False i ss p certs) = Inl (Panicked ''Domain already registered.'')"
  using assms
proof (induction ss arbitrary: i p)
  case Nil
  then show ?case by simp
next
  case (Cons site rest)
  show ?case
  proof (cases "proxy p (Name site) = None")
    case False
    then show ?thesis by (simp add: ReverseProxy_RegisterSite_def)
  next
    case True
    let ?p' = "p\<lparr>proxy := (proxy p)(Name site \<mapsto> site)\<rparr>"
    from Cons.prems True
    have "\<not> distinct (map Name rest) \<or> (\<exists>x\<in>set rest. proxy ?p' (Name x) \<noteq> None)"
      by auto
    from Cons.IH [OF this] True show ?thesis
      by (simp add: ReverseProxy_RegisterSite_def snd_after)
  qed
qed

lemma range_sites_plain_events:
  "x \<in> set (fst (range_sites env port False i ss p certs)) \<Longrightarrow> \<exists>name st. x = EvRegisterSite port name st"
proof (induction ss arbitrary: i p)
  case Nil
  then show ?case by simp
next
  case (Cons site rest)
  then show ?case
    by (auto simp: ReverseProxy_RegisterSite_def fst_after split: if_splits)
qed

lemma filter_keeps_duplicate:
  assumes "i < j" "j < length xs" "P (xs ! i)" "P (xs ! j)" "f (xs ! i) = f (xs ! j)"
  shows "\<not> distinct (map f (filter P xs))"
proof -
  from assms(2) have xs: "xs = take j xs @ xs ! j # drop (Suc j) xs"
    by (rule id_take_nth_drop)
  from assms(1,2) have "xs ! i \<in> set (take j xs)"
    by (auto simp: in_set_conv_nth intro!: exI [of _ i])
  with assms(3) have "f (xs ! i) \<in> set (map f (filter P (take j xs)))" by auto
  with assms(5) have mem: "f (xs ! j) \<in> set (map f (filter P (take j xs)))" by simp
  have "filter P xs = filter P (take j xs) @ xs ! j # filter P (drop (Suc j) xs)"
    using assms(4) by (subst xs) simp
  with mem show ?thesis by auto
qed

lemma serve_group_plain_duplicate:
  assumes plain: "\<forall>site\<in>set ss. auth site = None"
    and dup: "\<not> distinct (map Name ss)"
  shows "snd (serve_group env port ss) = Some (Panicked ''Domain already registered.'')
    \<and> (\<forall>x\<in>set (fst (serve_group env port ss)). \<exists>name st. x = EvRegisterSite port name st)"
proof (cases ss)
  case Nil
  with dup show ?thesis by simp
next
  case (Cons site0 rest)
  with dup have ne: "rest \<noteq> []" by auto
  from plain Cons have a: "auth site0 = None" by simp
  from plain Cons have "\<not> mixed_auth False rest"
    by (auto simp: mixed_auth_iff has_credentials_def)
  with a have nm: "\<not> mixed_auth (auth site0 \<noteq> None) rest" by simp
  let ?certs = "make_Certificates (length ss)"
  obtain evs res where rs: "range_sites env port False 0 ss NewProxy ?certs = (evs, res)"
    by (cases "range_sites env port False 0 ss NewProxy ?certs") auto
  with range_sites_duplicate [of ss NewProxy env port 0 ?certs] dup
  have res: "res = Inl (Panicked ''Domain already registered.'')" by simp
  from ne nm a rs res Cons
  have "serve_group env port ss = (evs, Some (Panicked ''Domain already registered.''))"
    by (simp add: serve_group_many)
  with rs range_sites_plain_events [of _ env port 0 ss NewProxy ?certs] show ?thesis by auto
qed

text \<open>
  A shared port without credentials never gets a listener: the loop over its sites
  leaves every certificate at its zero value, and \<^verbatim>\<open>BuildNameToCertificate\<close> panics on
  them (unless a registration has panicked before).
\<close>

lemma range_sites_plain_certs:
  "range_sites env port False i ss p certs = (evs, Inr (p', certs')) \<Longrightarrow> certs' = certs"
proof (induction ss arbitrary: i p evs)
  case Nil
  then show ?case by simp
next
  case (Cons site rest)
  obtain evs1 res1 where r1: "range_sites env port False (Suc i) rest
      (p\<lparr>proxy := (proxy p)(Name site \<mapsto> site)\<rparr>) certs = (evs1, res1)"
    by (cases "range_sites env port False (Suc i) rest
      (p\<lparr>proxy := (proxy p)(Name site \<mapsto> site)\<rparr>) certs") auto
  with Cons.prems have "res1 = Inr (p', certs')"
    by (auto simp: ReverseProxy_RegisterSite_def split: if_splits)
  with Cons.IH r1 show ?case by blast
qed

lemma range_sites_plain_stop:
  "range_sites env port False i ss p certs = (evs, Inl out) \<Longrightarrow>
     out = Panicked ''Domain already registered.''"
proof (induction ss arbitrary: i p evs)
  case Nil
  then show ?case by simp
next
  case (Cons site rest)
  obtain evs1 res1 where r1: "range_sites env port False (Suc i) rest
      (p\<lparr>proxy := (proxy p)(Name site \<mapsto> site)\<rparr>) certs = (evs1, res1)"
    by (cases "range_sites env port False (Suc i) rest
      (p\<lparr>proxy := (proxy p)(Name site \<mapsto> site)\<rparr>) certs") auto
  with Cons.prems have "out = Panicked ''Domain already registered.'' \<or> res1 = Inl out"
    by (auto simp: ReverseProxy_RegisterSite_def split: if_splits)
  with Cons.IH r1 show ?case by blast
qed

lemma serve_group_plain_shared:
  assumes plain: "\<forall>site\<in>set (site0 # rest). auth site = None" and shared: "rest \<noteq> []"
  shows "snd (serve_group env port (site0 # rest)) = Some (Panicked ''Domain already registered.'')
    \<or> snd (serve_group env port (site0 # rest)) = Some (Panicked ''index out of range'')"
proof -
  from plain have a: "auth site0 = None" by simp
  from plain have "\<not> mixed_auth False rest"
    by (auto simp: mixed_auth_iff has_credentials_def)
  with a have nm: "\<not> mixed_auth (auth site0 \<noteq> None) rest" by simp
  let ?certs = "make_Certificates (length (site0 # rest))"
  have zero: "None \<in> set ?certs" by (simp add: make_Certificates_def)
  from shared show ?thesis
  proof (cases rule: serve_group_many_cases [where ?site0.0 = site0 and env = env and port = port])
    case mixed
    with nm show ?thesis by simp
  next
    case (stopped evs out)
    with a range_sites_plain_stop [of env port 0 "site0 # rest" NewProxy ?certs evs out]
    show ?thesis by simp
  next
    case (build_panicked evs p certs)
    then show ?thesis by simp
  next
    case (listen_failed evs p certs)
    with a range_sites_plain_certs [of env port 0 "site0 # rest" NewProxy ?certs evs p certs] zero
    show ?thesis by simp
  next
    case (started evs p certs)
    with a range_sites_plain_certs [of env port 0 "site0 # rest" NewProxy ?certs evs p certs] zero
    show ?thesis by simp
  qed
qed

text \<open>
  Claim C10, as the code has it. Let two entries of the Server's Sites have the same name
  and the port \<open>port\<close>, let no Site of that port group have credentials, and let the loop
  reach the group (every group visited before it has started its listener). Then
  \<^verbatim>\<open>Serve\<close> ends in the panic "Domain already registered." and returns no value; for
  that port nothing but registrations has happened: no key-pair load, no bind, no
  goroutine.
\<close>

theorem Serve_duplicate_plain_sites:
  assumes order: "map_order (collect_sites (sites (s :: 'h Server)) Map.empty) order"
    and two: "i < j" "j < length (sites s)"
    and same: "Name (sites s ! i) = Name (sites s ! j)"
      "Port (sites s ! i) = port" "Port (sites s ! j) = port"
    and plain: "\<forall>site\<in>set (port_group s port). auth site = None"
    and reached: "order = pre @ port # post"
      "\<forall>q\<in>set pre. snd (serve_group env q (port_group s q)) = None"
  shows "snd (Server_Serve env order s) = Panicked ''Domain already registered.''
    \<and> (\<forall>x\<in>set (fst (Server_Serve env order s)).
          event_port x = port \<longrightarrow> (\<exists>name st. x = EvRegisterSite port name st))"
proof -
  let ?pm = "collect_sites (sites s) Map.empty"
  let ?g = "port_group s port"
  from two same have dup: "\<not> distinct (map Name ?g)"
    unfolding port_group_def
    by (intro filter_keeps_duplicate [where i = i and j = j]) (simp_all add: has_port_def)
  note sg = serve_group_plain_duplicate [OF plain dup, of env port]
  from dup have "?g \<noteq> []" by auto
  then have pm: "?pm port = Some ?g" by (simp add: collect_sites_port_group)
  have "snd (range_portMap env ?pm (pre @ port # post)) = Some (Panicked ''Domain already registered.'')"
  proof (rule range_portMap_reaches [where g = ?g])
    fix q ss assume "q \<in> set pre" "?pm q = Some ss"
    with reached(2) show "snd (serve_group env q ss) = None"
      by (auto simp: collect_sites_port_group split: if_splits)
  next
    show "?pm port = Some ?g" by (rule pm)
  next
    from sg show "snd (serve_group env port ?g) = Some (Panicked ''Domain already registered.'')"
      by simp
  qed
  with reached(1) have out: "snd (Server_Serve env order s) = Panicked ''Domain already registered.''"
    by (simp add: Server_Serve_stop)
  have "\<exists>name st. x = EvRegisterSite port name st"
    if "x \<in> set (fst (Server_Serve env order s))" "event_port x = port" for x
    using Server_Serve_events [OF that(1)] that(2) sg by auto
  with out show ?thesis by blast
qed

text \<open>Two plain Sites "example.com" on port 80: the first is registered, the second
  registration panics.\<close>

theorem Serve_duplicate_plain_sites_witness:
  "Server_Serve env_quiet [80]
     (NewServerFromSites
        [NewSite ''example.com'' 80 (None :: string option), NewSite ''example.com'' 80 None])
    = ([EvRegisterSite 80 ''example.com'' Done,
        EvRegisterSite 80 ''example.com'' (Panic ''Domain already registered.'')],
       Panicked ''Domain already registered.'')"
proof -
  let ?s = "NewServerFromSites
        [NewSite ''example.com'' 80 (None :: string option), NewSite ''example.com'' 80 None]"
  have o: "map_order (collect_sites (sites ?s) Map.empty) [80]"
    unfolding map_order_portMap
    by (auto simp: NewServerFromSites_def NewSite_def)
  have l: "(0::nat) < 1" "1 < length (sites ?s)" by (simp_all add: NewServerFromSites_def)
  have n: "Name (sites ?s ! 0) = Name (sites ?s ! 1)" "Port (sites ?s ! 0) = 80"
    "Port (sites ?s ! 1) = 80"
    by (simp_all add: NewServerFromSites_def NewSite_def)
  have p: "\<forall>site\<in>set (port_group ?s 80). auth site = None"
    by (simp add: port_group_def has_port_def NewServerFromSites_def NewSite_def)
  have r: "[80] = [] @ 80 # ([] :: int list)"
    "\<forall>q\<in>set []. snd (serve_group env_quiet q (port_group ?s q)) = None" by simp_all
  have evs: "fst (Server_Serve env_quiet [80] ?s)
      = [EvRegisterSite 80 ''example.com'' Done,
         EvRegisterSite 80 ''example.com'' (Panic ''Domain already registered.'')]"
    by (simp add: Server_Serve_def NewServerFromSites_def NewSite_def
          ReverseProxy_RegisterSite_def NewProxy_def)
  from Serve_duplicate_plain_sites [OF o l n p r] have
    "snd (Server_Serve env_quiet [80] ?s) = Panicked ''Domain already registered.''" by simp
  with evs show ?thesis by (simp add: prod_eq_iff)
qed

text \<open>
  The same two Sites with a third, secure Site on the same port: the check for mixed
  HTTPS usage comes before the registrations, so \<^verbatim>\<open>Serve\<close> returns the mixed-HTTPS
  error and no registration is attempted.
\<close>

theorem Serve_duplicate_in_mixed_group:
  "Server_Serve env_quiet [80]
     (NewServerFromSites
        [NewSite ''example.com'' 80 (None :: string option), NewSite ''example.com'' 80 None,
         NewSecureSite ''shop.example.com'' 80 ''cert.pem'' ''key.pem'' None])
    = ([], Returned (Err ''Multiple sites on the same port with mixed HTTPS usage.''))"
  by (simp add: Server_Serve_def NewServerFromSites_def NewSite_def NewSecureSite_def
        errors_New_def)

lemma prepares_calm: "prepares x \<Longrightarrow> failure_of x = None"
  by (cases x) simp_all

lemma range_sites_trace:
  "range_sites env port a i ss p certs = (evs, res) \<Longrightarrow>
     (\<forall>x\<in>set (butlast evs). prepares x)
     \<and> (case res of
          Inr _ \<Rightarrow> (\<forall>x\<in>set evs. prepares x)
        | Inl out \<Rightarrow> (\<forall>e. evs \<noteq> [] \<and> failure_of (last evs) = Some e \<longrightarrow> out = Returned e))"
proof (induction ss arbitrary: i p certs evs res)
  case Nil
  then show ?case by auto
next
  case (Cons site rest)
  let ?reg = "EvRegisterSite port (Name site) Done :: 'a event"
  show ?case
  proof (cases "proxy p (Name site) = None")
    case False
    with Cons.prems show ?thesis by (auto simp: ReverseProxy_RegisterSite_def)
  next
    case free: True
    let ?p' = "p\<lparr>proxy := (proxy p)(Name site \<mapsto> site)\<rparr>"
    show ?thesis
    proof (cases a)
      case False
      obtain evs' res' where rec: "range_sites env port a (Suc i) rest ?p' certs = (evs', res')"
        by (cases "range_sites env port a (Suc i) rest ?p' certs") auto
      with Cons.prems free False have e: "evs = ?reg # evs'" "res = res'"
        by (auto simp: ReverseProxy_RegisterSite_def)
      from Cons.IH [OF rec] e show ?thesis
        by (cases res') (auto simp: butlast_append split: if_splits)
    next
      case True
      show ?thesis
      proof (cases "auth site")
        case None
        with Cons.prems free True show ?thesis
          by (auto simp: ReverseProxy_RegisterSite_def)
      next
        case (Some ck)
        obtain certFile keyFile where ck: "ck = (certFile, keyFile)" by (cases ck) auto
        let ?err = "tls_LoadX509KeyPair env certFile keyFile"
        let ?load = "EvLoadX509KeyPair port certFile keyFile ?err :: 'a event"
        show ?thesis
        proof (cases "?err = nil")
          case False
          with Cons.prems free True Some ck show ?thesis
            by (auto simp: ReverseProxy_RegisterSite_def Let_def)
        next
          case ok: True
          obtain evs' res' where rec:
            "range_sites env port a (Suc i) rest ?p' (certs[i := Some (certFile, keyFile)])
               = (evs', res')"
            by (cases "range_sites env port a (Suc i) rest ?p'
                  (certs[i := Some (certFile, keyFile)])") auto
          with Cons.prems free True Some ck ok have e: "evs = ?reg # ?load # evs'" "res = res'"
            by (auto simp: ReverseProxy_RegisterSite_def)
          from Cons.IH [OF rec] e ok show ?thesis
            by (cases res') (auto simp: butlast_append split: if_splits)
        qed
      qed
    qed
  qed
qed

lemma serve_group_trace: "serve_group env port ss = (evs, r) \<Longrightarrow> stops_at_failure evs r"
proof (cases ss)
  case Nil
  assume "serve_group env port ss = (evs, r)"
  with Nil show ?thesis by (auto simp: stops_at_failure_def)
next
  case (Cons site0 rest)
  assume sg: "serve_group env port ss = (evs, r)"
  show ?thesis
  proof (cases "rest = []")
    case True
    with Cons sg show ?thesis
      by (auto simp: stops_at_failure_def split: option.splits if_splits)
  next
    case False
    then show ?thesis
    proof (cases rule: serve_group_many_cases [where ?site0.0 = site0 and env = env and port = port])
      case mixed
      with sg Cons show ?thesis by (auto simp: stops_at_failure_def)
    next
      case (stopped evs' out)
      with sg Cons have e: "evs = evs'" "r = Some out" by auto
      from range_sites_trace [OF stopped(2)] e show ?thesis
        by (auto simp: stops_at_failure_def prepares_calm)
    next
      case (build_panicked evs' p certs)
      with sg Cons have e: "evs = evs'" "r = Some (Panicked ''index out of range'')" by auto
      from range_sites_trace [OF build_panicked(2)]
      have all: "\<forall>x\<in>set evs'. prepares x" by simp
      have "failure_of (last evs') = None" if "evs' \<noteq> []"
      proof -
        from that have "last evs' \<in> set evs'" by simp
        with all have "prepares (last evs')" by blast
        then show ?thesis by (rule prepares_calm)
      qed
      note calm = this
      show ?thesis
      proof (cases "evs' = []")
        case True
        with e show ?thesis by (simp add: stops_at_failure_def)
      next
        case False
        with calm all e show ?thesis
          by (auto simp: stops_at_failure_def prepares_calm dest: in_set_butlastD)
      qed
    next
      case (listen_failed evs' p certs)
      with sg Cons have e: "evs = evs' @ [EvListen port (net_Listen env port)]"
        "r = Some (Returned (net_Listen env port))" by auto
      from range_sites_trace [OF listen_failed(2)] e listen_failed(4) show ?thesis
        by (auto simp: stops_at_failure_def prepares_calm)
    next
      case (started evs' p certs)
      with sg Cons have e: "evs = evs' @ [EvListen port nil,
               EvGo (Go_serveMany port p (if auth site0 \<noteq> None then Some certs else None))]"
        "r = None" by auto
      from range_sites_trace [OF started(2)] e show ?thesis
        by (auto simp: stops_at_failure_def prepares_calm butlast_append)
    qed
  qed
qed

lemma butlast_or_last: "x \<in> set evs \<Longrightarrow> x \<in> set (butlast evs) \<or> x = last evs"
  by (cases evs rule: rev_cases) auto

lemma stops_at_failure_None: "stops_at_failure evs None \<Longrightarrow> x \<in> set evs \<Longrightarrow> failure_of x = None"
proof -
  assume s: "stops_at_failure evs None" and x: "x \<in> set evs"
  then have ne: "evs \<noteq> []" by auto
  from x have "x \<in> set (butlast evs) \<or> x = last evs" by (rule butlast_or_last)
  with s ne show ?thesis by (cases "failure_of (last evs)") (auto simp: stops_at_failure_def)
qed

lemma stops_at_failure_append:
  assumes first: "\<forall>x\<in>set evs1. failure_of x = None \<and> event_port x = q"
    and rest: "stops_at_failure evs2 r" and ports: "\<forall>x\<in>set evs2. event_port x \<noteq> q"
  shows "stops_at_failure (evs1 @ evs2) r"
proof (cases "evs2 = []")
  case True
  with first show ?thesis
    by (auto simp: stops_at_failure_def dest: in_set_butlastD)
next
  case False
  with first rest ports show ?thesis
    by (auto simp: stops_at_failure_def butlast_append)
qed

lemma range_portMap_trace:
  assumes wf: "\<forall>q ss. portMap q = Some ss \<longrightarrow> (\<forall>site\<in>set ss. Port site = q)"
  shows "distinct order \<Longrightarrow> range_portMap env portMap order = (evs, r) \<Longrightarrow> stops_at_failure evs r"
proof (induction order arbitrary: evs r)
  case Nil
  then show ?case by (simp add: stops_at_failure_def)
next
  case (Cons port rest)
  show ?case
  proof (cases "portMap port")
    case None
    with Cons show ?thesis by simp
  next
    case (Some ss)
    obtain evs1 r1 where sg: "serve_group env port ss = (evs1, r1)"
      by (cases "serve_group env port ss") auto
    note t1 = serve_group_trace [OF sg]
    show ?thesis
    proof (cases r1)
      case (Some out)
      with \<open>portMap port = Some ss\<close> sg Cons.prems have "evs = evs1" "r = r1" by simp_all
      with t1 show ?thesis by simp
    next
      case None
      obtain evs2 r2 where rec: "range_portMap env portMap rest = (evs2, r2)"
        by (cases "range_portMap env portMap rest") auto
      with None \<open>portMap port = Some ss\<close> sg Cons.prems have e: "evs = evs1 @ evs2" "r = r2"
        by simp_all
      from Cons.prems have "distinct rest" by simp
      from Cons.IH [OF this rec] have t2: "stops_at_failure evs2 r2" .
      have p1: "\<forall>x\<in>set evs1. failure_of x = None \<and> event_port x = port"
      proof
        fix x assume x: "x \<in> set evs1"
        from t1 None x have "failure_of x = None" by (simp add: stops_at_failure_None)
        moreover from wf \<open>portMap port = Some ss\<close> x sg
        have "event_port x = port" using serve_group_ports [of ss port x env] by auto
        ultimately show "failure_of x = None \<and> event_port x = port" by simp
      qed
      have p2: "\<forall>x\<in>set evs2. event_port x \<noteq> port"
      proof
        fix x assume "x \<in> set evs2"
        with rec have "x \<in> set (fst (range_portMap env portMap rest))" by simp
        from range_portMap_events [OF wf this] have "event_port x \<in> set rest" by simp
        with Cons.prems show "event_port x \<noteq> port" by auto
      qed
      from stops_at_failure_append [OF p1 t2 p2] e show ?thesis by simp
    qed
  qed
qed

text \<open>
  Claim C7. Key pairs are loaded, and the socket is bound by \<^verbatim>\<open>Serve\<close> itself, only for
  a shared port whose Sites all have credentials (a shared port without credentials
  panics before its bind, see \<open>serve_group_plain_shared\<close>). In every execution of
  \<^verbatim>\<open>Serve\<close>: if a key-pair load for a shared port
  fails, or the bind of a shared port fails, with error \<open>e\<close>, then that step is the last
  step of the call and the call returns \<open>e\<close>. Before it, all that has happened for that
  port is registrations that finished and key pairs that loaded: no bind (so a failed
  bind is the only one, it is not tried again) and no goroutine, so no listener serves
  the port and the key pairs already loaded are never put to use.
\<close>

theorem Serve_startup_failure:
  assumes order: "map_order (collect_sites (sites (s :: 'h Server)) Map.empty) order"
    and x: "x \<in> set (fst (Server_Serve env order s))"
    and kind: "x = EvLoadX509KeyPair port certFile keyFile e \<or> x = EvListen port e"
    and e: "e \<noteq> nil"
  shows "snd (Server_Serve env order s) = Returned e
    \<and> (\<exists>before. fst (Server_Serve env order s) = before @ [x]
          \<and> (\<forall>y\<in>set before. event_port y = port \<longrightarrow> prepares y))"
proof -
  let ?pm = "collect_sites (sites s) Map.empty"
  obtain evs r where rp: "range_portMap env ?pm order = (evs, r)"
    by (cases "range_portMap env ?pm order") auto
  have wf: "\<forall>q ss. ?pm q = Some ss \<longrightarrow> (\<forall>site\<in>set ss. Port site = q)"
    by (auto simp: collect_sites_port_group port_group_Port split: if_splits)
  from order have "distinct order" by (simp add: map_order_def)
  from range_portMap_trace [OF wf this rp] have t: "stops_at_failure evs r" .
  from x rp have xin: "x \<in> set evs" by (simp add: fst_Server_Serve)
  from kind e have f: "failure_of x = Some e" and xp: "event_port x = port" by auto
  from xin have ne: "evs \<noteq> []" by auto
  from xin have "x \<in> set (butlast evs) \<or> x = last evs" by (rule butlast_or_last)
  moreover from t f have "x \<notin> set (butlast evs)" by (auto simp: stops_at_failure_def)
  ultimately have last: "last evs = x" by simp
  from t ne last f xp have r: "r = Some (Returned e)"
    and before: "\<forall>y\<in>set (butlast evs). event_port y = port \<longrightarrow> prepares y"
    by (auto simp: stops_at_failure_def)
  from rp r have "snd (Server_Serve env order s) = Returned e"
    by (simp add: Server_Serve_def)
  moreover from ne have "butlast evs @ [last evs] = evs" by simp
  with rp last have "fst (Server_Serve env order s) = butlast evs @ [x]"
    by (simp add: fst_Server_Serve)
  ultimately show ?thesis using before by blast
qed

text \<open>Two secure Sites on port 443, the second with a key pair that does not load; and
  two secure Sites on port 81, whose key pairs load but which cannot be bound.\<close>

theorem Serve_startup_failure_witness:
  "Server_Serve env_faulty [443]
     (NewServerFromSites
        [NewSecureSite ''a.example.com'' 443 ''cert.pem'' ''key.pem'' (None :: string option),
         NewSecureSite ''b.example.com'' 443 ''bad.pem'' ''key.pem'' None])
    = ([EvRegisterSite 443 ''a.example.com'' Done,
        EvLoadX509KeyPair 443 ''cert.pem'' ''key.pem'' nil,
        EvRegisterSite 443 ''b.example.com'' Done,
        EvLoadX509KeyPair 443 ''bad.pem'' ''key.pem''
          (Err ''open bad.pem: no such file or directory'')],
       Returned (Err ''open bad.pem: no such file or directory''))
   \<and> Server_Serve env_faulty [81]
     (NewServerFromSites
        [NewSecureSite ''a.example.com'' 81 ''cert.pem'' ''key.pem'' (None :: string option),
         NewSecureSite ''b.example.com'' 81 ''cert2.pem'' ''key2.pem'' None])
    = ([EvRegisterSite 81 ''a.example.com'' Done,
        EvLoadX509KeyPair 81 ''cert.pem'' ''key.pem'' nil,
        EvRegisterSite 81 ''b.example.com'' Done,
        EvLoadX509KeyPair 81 ''cert2.pem'' ''key2.pem'' nil,
        EvListen 81 (Err ''listen tcp :81: bind: address already in use'')],
       Returned (Err ''listen tcp :81: bind: address already in use''))"
proof -
  let ?s1 = "NewServerFromSites
        [NewSecureSite ''a.example.com'' 443 ''cert.pem'' ''key.pem'' (None :: string option),
         NewSecureSite ''b.example.com'' 443 ''bad.pem'' ''key.pem'' None]"
  let ?e1 = "Err ''open bad.pem: no such file or directory''"
  let ?x1 = "EvLoadX509KeyPair 443 ''bad.pem'' ''key.pem'' ?e1 :: string event"
  let ?s2 = "NewServerFromSites
        [NewSecureSite ''a.example.com'' 81 ''cert.pem'' ''key.pem'' (None :: string option),
         NewSecureSite ''b.example.com'' 81 ''cert2.pem'' ''key2.pem'' None]"
  let ?e2 = "Err ''listen tcp :81: bind: address already in use''"
  let ?x2 = "EvListen 81 ?e2 :: string event"
  have o1: "map_order (collect_sites (sites ?s1) Map.empty) [443]"
    unfolding map_order_portMap by (auto simp: NewServerFromSites_def NewSecureSite_def)
  have o2: "map_order (collect_sites (sites ?s2) Map.empty) [81]"
    unfolding map_order_portMap by (auto simp: NewServerFromSites_def NewSecureSite_def)
  have t1: "fst (Server_Serve env_faulty [443] ?s1)
      = [EvRegisterSite 443 ''a.example.com'' Done,
         EvLoadX509KeyPair 443 ''cert.pem'' ''key.pem'' nil,
         EvRegisterSite 443 ''b.example.com'' Done, ?x1]"
    by (simp add: Server_Serve_def NewServerFromSites_def NewSecureSite_def
          ReverseProxy_RegisterSite_def NewProxy_def env_faulty_def load_faulty_def Let_def
          make_Certificates_def)
  have t2: "fst (Server_Serve env_faulty [81] ?s2)
      = [EvRegisterSite 81 ''a.example.com'' Done,
         EvLoadX509KeyPair 81 ''cert.pem'' ''key.pem'' nil,
         EvRegisterSite 81 ''b.example.com'' Done,
         EvLoadX509KeyPair 81 ''cert2.pem'' ''key2.pem'' nil, ?x2]"
    by (simp add: Server_Serve_def NewServerFromSites_def NewSecureSite_def
          ReverseProxy_RegisterSite_def NewProxy_def env_faulty_def load_faulty_def
          listen_faulty_def Let_def make_Certificates_def BuildNameToCertificate_def)
  have x1: "?x1 \<in> set (fst (Server_Serve env_faulty [443] ?s1))" by (simp add: t1)
  have x2: "?x2 \<in> set (fst (Server_Serve env_faulty [81] ?s2))" by (simp add: t2)
  have k1: "?x1 = EvLoadX509KeyPair 443 ''bad.pem'' ''key.pem'' ?e1 \<or> ?x1 = EvListen 443 ?e1"
    by simp
  have k2: "?x2 = EvLoadX509KeyPair 81 [] [] ?e2 \<or> ?x2 = EvListen 81 ?e2" by simp
  have n1: "?e1 \<noteq> nil" and n2: "?e2 \<noteq> nil" by simp_all
  from Serve_startup_failure [OF o1 x1 k1 n1]
  have r1: "snd (Server_Serve env_faulty [443] ?s1) = Returned ?e1" by simp
  from Serve_startup_failure [OF o2 x2 k2 n2]
  have r2: "snd (Server_Serve env_faulty [81] ?s2) = Returned ?e2" by simp
  from t1 t2 r1 r2 show ?thesis by (simp add: prod_eq_iff)
qed

end
